theory Spec2Isabelle
  imports Complex_Main "HOL-Library.Sublist"
begin

section \<open>Values and helpers of the host language\<close>

text \<open>
  Strings are byte lists (the UTF-8 encoding of the JavaScript strings): the characters the
  program looks at (space, colon, quote, the fixed URL prefixes) are ASCII, and an ASCII byte
  never occurs inside a multi-byte UTF-8 sequence, so splitting and replacing on bytes is
  splitting and replacing on characters.

  An array read \<open>xs[i]\<close> past the end does not raise in JavaScript, it yields
  \<open>undefined\<close>; arithmetic on \<open>undefined\<close> yields \<open>NaN\<close>. Both are the value
  \<open>None\<close> of an option type here: "not a number".
\<close>

definition js_index :: "'a list \<Rightarrow> nat \<Rightarrow> 'a option" where
  "js_index xs i = (if i < length xs then Some (xs ! i) else None)"

definition js_add :: "'a::plus option \<Rightarrow> 'a option \<Rightarrow> 'a option" where
  "js_add a b = (case a of None \<Rightarrow> None | Some x \<Rightarrow> (case b of None \<Rightarrow> None | Some y \<Rightarrow> Some (x + y)))"

definition js_sub :: "'a::minus option \<Rightarrow> 'a option \<Rightarrow> 'a option" where
  "js_sub a b = (case a of None \<Rightarrow> None | Some x \<Rightarrow> (case b of None \<Rightarrow> None | Some y \<Rightarrow> Some (x - y)))"

text \<open>\<open>s.startsWith(p)\<close>\<close>

definition startsWith :: "string \<Rightarrow> string \<Rightarrow> bool" where
  "startsWith s p = (take (length p) s = p)"

text \<open>\<open>s.replace(/:/g, '_')\<close>\<close>

definition replace_colons :: "string \<Rightarrow> string" where
  "replace_colons s = map (\<lambda>c. if c = CHR '':'' then CHR ''_'' else c) s"

text \<open>\<open>s.split(' ')\<close>: every single space separates; two spaces in a row give an empty
  word, and the empty string gives one empty word.\<close>

fun split_space :: "string \<Rightarrow> string list" where
  "split_space [] = [[]]"
| "split_space (c # cs) =
     (if c = CHR '' '' then [] # split_space cs
      else (case split_space cs of [] \<Rightarrow> [[c]] | w # ws \<Rightarrow> (c # w) # ws))"

text \<open>Decimal rendering of an index inside a template string.\<close>

fun show_nat :: "nat \<Rightarrow> string" where
  "show_nat n =
     (if n < 10 then [''0123456789'' ! n]
      else show_nat (n div 10) @ [''0123456789'' ! (n mod 10)])"

declare show_nat.simps [simp del]

text \<open>\<open>path.join(dir, name)\<close> and \<open>path.resolve\<close> on an absolute directory, for names
  without separators or dot segments (Node normalises the others).\<close>

definition path_join :: "string \<Rightarrow> string \<Rightarrow> string" where
  "path_join dir name = dir @ ''/'' @ name"

text \<open>\<open>path.basename(p)\<close> for a path that does not end in a separator, and
  \<open>p.replace(/\\/g, '/')\<close>.\<close>

definition basename :: "string \<Rightarrow> string" where
  "basename p = rev (takeWhile (\<lambda>c. c \<noteq> CHR ''/'') (rev p))"

definition slashes :: "string \<Rightarrow> string" where
  "slashes p = map (\<lambda>c. if c = CHR 0x5C then CHR ''/'' else c) p"

section \<open>Request payload\<close>

record audio_file =
  url :: string

record recitation_file =
  audio_files :: "audio_file list"

record background =
  links :: "string list"

record ayah =
  verse_key :: string
  aya :: string
  translation :: string

section \<open>Timeline: \<open>buildVideoWithOverlays\<close>, start times\<close>

text \<open>
  \<^verbatim>\<open>let currentTime = 0; const startTimes = [];
  for (const duration of audioDurations) { startTimes.push(currentTime); currentTime += duration; }
  const totalDuration = currentTime;\<close>
  Durations are numbers of any type with a zero and an addition: no law of arithmetic is
  assumed, so what is proved holds for floating-point addition as it does for the reals.
\<close>

fun start_times_loop :: "'t::plus list \<Rightarrow> 't \<Rightarrow> 't list \<Rightarrow> 't list \<times> 't" where
  "start_times_loop [] currentTime startTimes = (startTimes, currentTime)"
| "start_times_loop (duration # rest) currentTime startTimes =
     start_times_loop rest (currentTime + duration) (startTimes @ [currentTime])"

definition timeline :: "'t::{zero,plus} list \<Rightarrow> 't list \<times> 't" where
  "timeline audioDurations = start_times_loop audioDurations 0 []"

definition startTimes_of :: "'t::{zero,plus} list \<Rightarrow> 't list" where
  "startTimes_of audioDurations = fst (timeline audioDurations)"

definition totalDuration_of :: "'t::{zero,plus} list \<Rightarrow> 't" where
  "totalDuration_of audioDurations = snd (timeline audioDurations)"

text \<open>Inside the overlay loop: \<open>startTime = startTimes[i]\<close> and
  \<open>endTime = startTime + audioDurations[i]\<close>.\<close>

definition startTime_at :: "'t::{zero,plus} list \<Rightarrow> nat \<Rightarrow> 't option" where
  "startTime_at audioDurations i = js_index (startTimes_of audioDurations) i"

definition endTime_at :: "'t::{zero,plus} list \<Rightarrow> nat \<Rightarrow> 't option" where
  "endTime_at audioDurations i =
     js_add (startTime_at audioDurations i) (js_index audioDurations i)"

section \<open>Compositing graph: \<open>buildVideoWithOverlays\<close>, filter parts\<close>

text \<open>
  The source pushes one template string per filter onto \<open>filterComplexParts\<close>. A part is
  kept here as the template it comes from together with the values the template interpolates;
  labels are the bracketed stream names.
\<close>

datatype label = Bg | Vig | ScaledWatermark | WithWatermark | Trans nat | Arabic nat

datatype 't filter_part =
    ScaleBackground
      \<comment> \<open>\<open>[0:v]scale=1080:1920,format=yuva420p[bg]\<close>\<close>
  | VignetteOverlay
      \<comment> \<open>\<open>[bg][3:v]overlay=(W-w)/2:(H-h)/2[vig]\<close>\<close>
  | ScaleWatermark
      \<comment> \<open>\<open>[2:v]scale=iw*0.7:ih*0.7[scaled_watermark]\<close>\<close>
  | WatermarkOverlay int
      \<comment> \<open>\<open>[vig][scaled_watermark]overlay=(W-w)/2:${watermarkY}[with_watermark]\<close>\<close>
  | TimedOverlay label nat "int option" "'t option" "'t option" label
      \<comment> \<open>\<open>[${base}][${k}:v]overlay=x=(W-w)/2:y=${y}:enable='between(t,${lo},${hi})'[${out}]\<close>\<close>

definition watermarkY :: int where
  "watermarkY = 1920 - 300"

definition overlay_step ::
  "nat \<Rightarrow> 't::plus list \<Rightarrow> 't list \<Rightarrow> int list \<Rightarrow> int list \<Rightarrow>
   't filter_part list \<times> label \<Rightarrow> nat \<Rightarrow> 't filter_part list \<times> label" where
  "overlay_step nArabic startTimes audioDurations translationTextHeights arabicTextHeights st i =
     (let filterComplexParts = fst st;
          prevLabel = snd st;
          startTime = js_index startTimes i;
          endTime = js_add startTime (js_index audioDurations i);
          translationHeight = js_index translationTextHeights i;
          arabicHeight = js_index arabicTextHeights i;
          translationY = js_sub (js_sub (Some watermarkY) (js_add translationHeight (Some 100))) (Some 50);
          translationLabel = Trans i;
          arabicY = js_sub translationY (js_add arabicHeight (Some 24));
          arabicLabel = Arabic i
      in (filterComplexParts @
            [TimedOverlay prevLabel (i + nArabic + 4) translationY startTime endTime translationLabel,
             TimedOverlay translationLabel (i + 4) arabicY startTime endTime arabicLabel],
          arabicLabel))"

text \<open>The four fixed parts, then the loop \<open>for (let i = 0; i < ayat.length; i++)\<close>.
  The result is the list of parts and the final video label.\<close>

definition filter_graph ::
  "string list \<Rightarrow> ayah list \<Rightarrow> 't::{zero,plus} list \<Rightarrow> int list \<Rightarrow> int list \<Rightarrow>
   't filter_part list \<times> label" where
  "filter_graph arabicImagePaths ayat audioDurations translationTextHeights arabicTextHeights =
     foldl (overlay_step (length arabicImagePaths) (startTimes_of audioDurations) audioDurations
              translationTextHeights arabicTextHeights)
       ([ScaleBackground, VignetteOverlay, ScaleWatermark, WatermarkOverlay watermarkY], WithWatermark)
       [0..<length ayat]"

text \<open>
  The backend's expression language: \<open>between(x, min, max)\<close> is 1 when
  \<open>min \<le> x\<close> and \<open>x \<le> max\<close>, and 0 otherwise. A filter without an \<open>enable\<close> option is
  always on. A bound printed as \<open>undefined\<close> is not an expression: there is no value.
\<close>

definition between :: "'t::ord \<Rightarrow> 't \<Rightarrow> 't \<Rightarrow> bool" where
  "between x lo hi = (lo \<le> x \<and> x \<le> hi)"

fun enabled_at :: "'t::ord filter_part \<Rightarrow> 't \<Rightarrow> bool option" where
  "enabled_at (TimedOverlay b k y (Some lo) (Some hi) out) t = Some (between t lo hi)"
| "enabled_at (TimedOverlay b k y _ _ out) t = None"
| "enabled_at _ t = Some True"

text \<open>The window the design document asks for, half-open, for comparison.\<close>

definition half_open_window :: "'t::ord \<Rightarrow> 't \<Rightarrow> 't \<Rightarrow> bool" where
  "half_open_window lo hi t = (lo \<le> t \<and> t < hi)"

section \<open>The world outside: files, network, media backend\<close>

text \<open>
  What the program leaves behind is recorded in a \<open>world\<close>: the directories that exist,
  the files written (path and what was written, in order), the URLs requested, the output
  paths of the media backend's runs and the storage keys uploaded. File-system calls are
  taken to succeed. What the collaborators answer is a parameter, the \<open>env\<close>.
\<close>

record image =
  img_width :: int
  img_height :: int
  img_lines :: "(string \<times> real \<times> real) list"
    \<comment> \<open>\<open>fillText(line, x, y)\<close>, in call order\<close>

datatype content =
    Fetched string
  | Png image
  | ConcatList string
  | MediaOutput

record world =
  dirs :: "string list"
  files :: "(string \<times> content) list"
  fetch_log :: "string list"
  ffmpeg_log :: "string list"
  upload_log :: "string list"

record 't ffmpeg_command =
  cmd_inputs :: "string list"
  cmd_filter :: "'t filter_part list"
  cmd_map :: label
  cmd_duration :: 't
  cmd_output :: string

record 't env =
  fetch_ok :: "string \<Rightarrow> bool"
    \<comment> \<open>the request resolves, \<open>response.ok\<close> holds and the body can be read\<close>
  probe_duration :: "string \<Rightarrow> 't option"
    \<comment> \<open>\<open>metadata.format.duration || 0\<close> of the file at a path; \<open>None\<close> when the probe fails\<close>
  concat_ok :: "string \<Rightarrow> string list \<Rightarrow> bool"
    \<comment> \<open>the backend's concat run for a media type and input list ends without error\<close>
  encode_ok :: "'t ffmpeg_command \<Rightarrow> bool"
  upload_ok :: "string \<Rightarrow> bool"
  measure_arabic :: "string \<Rightarrow> real"
    \<comment> \<open>\<open>ctx.measureText(s).width\<close> under the font \<open>65px UthmanicHafs\<close>\<close>
  measure_translation :: "string \<Rightarrow> real"
    \<comment> \<open>the same under \<open>32px ClashDisplay\<close>\<close>
  cwd :: string
  storage_base :: string
    \<comment> \<open>\<open>https://${R2_ACCOUNT_ID}.r2.cloudflarestorage.com/${R2_BUCKET_NAME}\<close>\<close>
  now_ms :: nat

text \<open>Every \<open>throw\<close> and every rejected promise of the pipeline.\<close>

datatype error =
    TypeError
      \<comment> \<open>reading \<open>.url\<close> of \<open>audio_files[0]\<close> when the list is empty\<close>
  | AudioDownloadFailed string
      \<comment> \<open>\<open>Audio download failed for ${verse_key}: ...\<close>\<close>
  | VideoDownloadFailed string
      \<comment> \<open>\<open>Video download failed for ${videoUrl}: ...\<close>\<close>
  | NoValidBackground
      \<comment> \<open>\<open>No valid background video provided\<close>\<close>
  | NoFilesToConcatenate string
      \<comment> \<open>\<open>No ${type} files to concatenate\<close>\<close>
  | ConcatFailed string
  | EncodeFailed
  | UploadFailed

definition write_file :: "string \<Rightarrow> content \<Rightarrow> world \<Rightarrow> world" where
  "write_file p c w = w\<lparr>files := files w @ [(p, c)]\<rparr>"

definition do_fetch :: "string \<Rightarrow> world \<Rightarrow> world" where
  "do_fetch u w = w\<lparr>fetch_log := fetch_log w @ [u]\<rparr>"

section \<open>\<open>downloadFiles\<close>\<close>

definition audio_prefix :: string where
  "audio_prefix = ''https://verses.quran.com/''"

definition pixabay_prefix :: string where
  "pixabay_prefix = ''https://cdn.pixabay.com/''"

text \<open>The first loop, over \<open>recitation_files\<close> with its index \<open>i\<close>; the accumulators are
  \<open>audioPaths\<close> and \<open>audioDurations\<close>.\<close>

fun audio_loop ::
  "'t env \<Rightarrow> string \<Rightarrow> ayah list \<Rightarrow> nat \<Rightarrow> recitation_file list \<Rightarrow> string list \<Rightarrow> 't list \<Rightarrow>
   world \<Rightarrow> (error + string list \<times> 't list) \<times> world" where
  "audio_loop e tempDir ayat i [] audioPaths audioDurations w = (Inr (audioPaths, audioDurations), w)"
| "audio_loop e tempDir ayat i (recitation_file # rest) audioPaths audioDurations w =
     (case audio_files recitation_file of
        [] \<Rightarrow> (Inl TypeError, w)
      | first # _ \<Rightarrow>
          (let key = (case js_index ayat i of
                        Some verse \<Rightarrow> verse_key verse
                      | None \<Rightarrow> ''unknown-'' @ show_nat i);
               audioUrl = audio_prefix @ url first;
               audioPath = path_join tempDir (''audio_'' @ replace_colons key @ ''.mp3'');
               w1 = do_fetch audioUrl w
           in if \<not> fetch_ok e audioUrl then (Inl (AudioDownloadFailed key), w1)
              else (let w2 = write_file audioPath (Fetched audioUrl) w1
                    in case probe_duration e audioPath of
                         None \<Rightarrow> (Inl (AudioDownloadFailed key), w2)
                       | Some duration \<Rightarrow>
                           audio_loop e tempDir ayat (Suc i) rest
                             (audioPaths @ [audioPath]) (audioDurations @ [duration]) w2)))"

text \<open>The second loop, over \<open>background.links.entries()\<close>.\<close>

fun video_loop ::
  "'t env \<Rightarrow> string \<Rightarrow> nat \<Rightarrow> string list \<Rightarrow> string list \<Rightarrow> world \<Rightarrow> (error + string list) \<times> world" where
  "video_loop e tempDir index [] videoPaths w = (Inr videoPaths, w)"
| "video_loop e tempDir index (videoUrl # rest) videoPaths w =
     (if startsWith videoUrl pixabay_prefix
      then (let videoPath = path_join tempDir (''background_'' @ show_nat index @ ''.mp4'');
                w1 = do_fetch videoUrl w
            in if \<not> fetch_ok e videoUrl then (Inl (VideoDownloadFailed videoUrl), w1)
               else video_loop e tempDir (Suc index) rest (videoPaths @ [videoPath])
                      (write_file videoPath (Fetched videoUrl) w1))
      else video_loop e tempDir (Suc index) rest videoPaths w)"

text \<open>The object \<open>{ audioPaths, audioDurations, videoPaths }\<close> that is returned.\<close>

record 't downloads =
  d_audioPaths :: "string list"
  d_audioDurations :: "'t list"
  d_videoPaths :: "string list"

definition downloadFiles ::
  "'t env \<Rightarrow> recitation_file list \<Rightarrow> background \<Rightarrow> ayah list \<Rightarrow> string \<Rightarrow> world \<Rightarrow>
   (error + 't downloads) \<times> world" where
  "downloadFiles e recitation_files bg ayat tempDir w =
     (case audio_loop e tempDir ayat 0 recitation_files [] [] w of
        (Inl err, w1) \<Rightarrow> (Inl err, w1)
      | (Inr (aps, ads), w1) \<Rightarrow>
          (case video_loop e tempDir 0 (links bg) [] w1 of
             (Inl err, w2) \<Rightarrow> (Inl err, w2)
           | (Inr vps, w2) \<Rightarrow>
               if length vps = 0 then (Inl NoValidBackground, w2)
               else (Inr \<lparr>d_audioPaths = aps, d_audioDurations = ads, d_videoPaths = vps\<rparr>, w2)))"

section \<open>\<open>concatenateMedia\<close>\<close>

text \<open>\<open>p.replace(/'/g, "'\\''")\<close>, between single quotes after \<open>file\<close>.\<close>

definition concat_line :: "string \<Rightarrow> string" where
  "concat_line p =
     ''file '' @ [CHR 0x27] @
     concat (map (\<lambda>c. if c = CHR 0x27 then [CHR 0x27, CHR 0x5C, CHR 0x27, CHR 0x27] else [c]) p) @
     [CHR 0x27]"

fun join_lines :: "string list \<Rightarrow> string" where
  "join_lines [] = []"
| "join_lines [l] = l"
| "join_lines (l # ls) = l @ [CHR 0x0A] @ join_lines ls"

definition concatenateMedia ::
  "'t env \<Rightarrow> string list \<Rightarrow> string \<Rightarrow> string \<Rightarrow> world \<Rightarrow> (error + string) \<times> world" where
  "concatenateMedia e filePaths type tempDir w =
     (if length filePaths = 0 then (Inl (NoFilesToConcatenate type), w)
      else if length filePaths = 1 then (Inr (filePaths ! 0), w)
      else (let concatListPath = path_join tempDir (type @ ''_concat.txt'');
                concatContent = join_lines (map concat_line filePaths);
                w1 = write_file concatListPath (ConcatList concatContent) w;
                outputPath = path_join tempDir
                  (''concatenated_'' @ type @ ''.'' @ (if type = ''video'' then ''mp4'' else ''mp3''));
                w2 = w1\<lparr>ffmpeg_log := ffmpeg_log w1 @ [outputPath]\<rparr>
            in if concat_ok e type filePaths
               then (Inr outputPath, write_file outputPath MediaOutput w2)
               else (Inl (ConcatFailed type), w2)))"

section \<open>Text rasterizer: \<open>renderArabicTextImage\<close>, \<open>renderTranslationTextImage\<close>\<close>

text \<open>
  The wrap loop, the same in both functions: \<open>line\<close> is the candidate line and \<open>lines\<close>
  the committed ones; after the loop the candidate is committed too.
\<close>

fun wrap_loop :: "(string \<Rightarrow> 'w::linorder) \<Rightarrow> 'w \<Rightarrow> string list \<Rightarrow> string \<Rightarrow> string list \<Rightarrow> string list" where
  "wrap_loop measureText maxWidth [] line lines = lines @ [line]"
| "wrap_loop measureText maxWidth (word # words) line lines =
     (let testLine = line @ word @ '' ''
      in if measureText testLine > maxWidth \<and> line \<noteq> []
         then wrap_loop measureText maxWidth words (word @ '' '') (lines @ [line])
         else wrap_loop measureText maxWidth words testLine lines)"

definition wrap_lines :: "(string \<Rightarrow> 'w::linorder) \<Rightarrow> 'w \<Rightarrow> string \<Rightarrow> string list" where
  "wrap_lines measureText maxWidth text = wrap_loop measureText maxWidth (split_space text) [] []"

text \<open>The canvas of the second half of a render function: \<open>lineHeight\<close> differs, the
  padding of 100 and the offset 50 do not.\<close>

definition draw_canvas :: "int \<Rightarrow> int \<Rightarrow> string list \<Rightarrow> image" where
  "draw_canvas width lineHeight lines =
     (let totalHeight = int (length lines) * lineHeight;
          canvasHeight = totalHeight + 100;
          startY = 50 + real_of_int lineHeight / 2
      in \<lparr>img_width = width, img_height = canvasHeight,
          img_lines = map (\<lambda>i. (lines ! i, real_of_int width / 2, startY + real i * real_of_int lineHeight))
                        [0..<length lines]\<rparr>)"

definition renderArabicTextImage :: "(string \<Rightarrow> real) \<Rightarrow> string \<Rightarrow> string \<Rightarrow> world \<Rightarrow> int \<times> world" where
  "renderArabicTextImage measureText text outputPath w =
     (let width = 950;
          maxWidth = real_of_int width * 0.9;
          lines = wrap_lines measureText maxWidth text;
          lineHeight = 100;
          totalHeight = int (length lines) * lineHeight
      in (totalHeight, write_file outputPath (Png (draw_canvas width lineHeight lines)) w))"

definition renderTranslationTextImage :: "(string \<Rightarrow> real) \<Rightarrow> string \<Rightarrow> string \<Rightarrow> world \<Rightarrow> int \<times> world" where
  "renderTranslationTextImage measureText text outputPath w =
     (let width = 950;
          maxWidth = real_of_int width * 0.9;
          lines = wrap_lines measureText maxWidth text;
          lineHeight = 45;
          totalHeight = int (length lines) * lineHeight
      in (totalHeight, write_file outputPath (Png (draw_canvas width lineHeight lines)) w))"

text \<open>\<open>generateArabicImages\<close> and \<open>generateTranslationImages\<close>: one image per verse, in
  order; the accumulators are \<open>imagePaths\<close> and \<open>textHeights\<close>.\<close>

fun arabic_images_loop ::
  "'t env \<Rightarrow> string \<Rightarrow> ayah list \<Rightarrow> string list \<Rightarrow> int list \<Rightarrow> world \<Rightarrow> (string list \<times> int list) \<times> world" where
  "arabic_images_loop e tempDir [] imagePaths textHeights w = ((imagePaths, textHeights), w)"
| "arabic_images_loop e tempDir (ayah # rest) imagePaths textHeights w =
     (let imagePath = path_join tempDir (''arabic_'' @ replace_colons (verse_key ayah) @ ''.png'');
          r = renderArabicTextImage (measure_arabic e) (aya ayah) imagePath w
      in arabic_images_loop e tempDir rest (imagePaths @ [imagePath]) (textHeights @ [fst r]) (snd r))"

definition generateArabicImages ::
  "'t env \<Rightarrow> ayah list \<Rightarrow> string \<Rightarrow> world \<Rightarrow> (string list \<times> int list) \<times> world" where
  "generateArabicImages e ayat tempDir w = arabic_images_loop e tempDir ayat [] [] w"

fun translation_images_loop ::
  "'t env \<Rightarrow> string \<Rightarrow> ayah list \<Rightarrow> string list \<Rightarrow> int list \<Rightarrow> world \<Rightarrow> (string list \<times> int list) \<times> world" where
  "translation_images_loop e tempDir [] imagePaths textHeights w = ((imagePaths, textHeights), w)"
| "translation_images_loop e tempDir (ayah # rest) imagePaths textHeights w =
     (let imagePath = path_join tempDir (''translation_'' @ replace_colons (verse_key ayah) @ ''.png'');
          r = renderTranslationTextImage (measure_translation e) (translation ayah) imagePath w
      in translation_images_loop e tempDir rest (imagePaths @ [imagePath]) (textHeights @ [fst r]) (snd r))"

definition generateTranslationImages ::
  "'t env \<Rightarrow> ayah list \<Rightarrow> string \<Rightarrow> world \<Rightarrow> (string list \<times> int list) \<times> world" where
  "generateTranslationImages e ayat tempDir w = translation_images_loop e tempDir ayat [] [] w"

section \<open>\<open>buildVideoWithOverlays\<close>\<close>

definition encode_command ::
  "'t::{zero,plus} env \<Rightarrow> string \<Rightarrow> string \<Rightarrow> string list \<Rightarrow> string list \<Rightarrow> ayah list \<Rightarrow> 't list \<Rightarrow>
   int list \<Rightarrow> int list \<Rightarrow> string \<Rightarrow> 't ffmpeg_command" where
  "encode_command e videoPath audioPath arabicImagePaths translationImagePaths ayat audioDurations
     translationTextHeights arabicTextHeights tempDir =
     (let totalDuration = totalDuration_of audioDurations;
          bgImagePath = path_join (path_join (cwd e) ''static'') ''bg-vid-gradient.png'';
          g = filter_graph arabicImagePaths ayat audioDurations translationTextHeights arabicTextHeights;
          outputPath = slashes (path_join tempDir ''final_output.mp4'');
          watermarkPath = path_join (path_join (path_join (cwd e) ''static'') ''images'') ''quran-watermark.png''
      in \<lparr>cmd_inputs = [videoPath, audioPath, watermarkPath, bgImagePath] @ arabicImagePaths @ translationImagePaths,
          cmd_filter = fst g, cmd_map = snd g, cmd_duration = totalDuration, cmd_output = outputPath\<rparr>)"

definition buildVideoWithOverlays ::
  "'t::{zero,plus} env \<Rightarrow> string \<Rightarrow> string \<Rightarrow> string list \<Rightarrow> string list \<Rightarrow> ayah list \<Rightarrow> 't list \<Rightarrow>
   int list \<Rightarrow> int list \<Rightarrow> string \<Rightarrow> world \<Rightarrow> (error + string) \<times> world" where
  "buildVideoWithOverlays e videoPath audioPath arabicImagePaths translationImagePaths ayat audioDurations
     translationTextHeights arabicTextHeights tempDir w =
     (let command = encode_command e videoPath audioPath arabicImagePaths translationImagePaths ayat
                      audioDurations translationTextHeights arabicTextHeights tempDir;
          outputPath = cmd_output command;
          w1 = w\<lparr>ffmpeg_log := ffmpeg_log w @ [outputPath]\<rparr>
      in if encode_ok e command then (Inr outputPath, write_file outputPath MediaOutput w1)
         else (Inl EncodeFailed, w1))"

section \<open>\<open>processVideoRequest\<close>\<close>

text \<open>The object \<open>{ output, videoUrl, presignedUrl, videoId }\<close> that is returned.\<close>

record video_result =
  r_output :: string
  r_videoUrl :: string
  r_presignedUrl :: string
  r_videoId :: string

text \<open>\<open>uploadVideoToR2\<close> with \<open>uploadFileToR2\<close> inlined.\<close>

definition uploadVideoToR2 :: "'t env \<Rightarrow> string \<Rightarrow> string \<Rightarrow> world \<Rightarrow> (error + string \<times> string) \<times> world" where
  "uploadVideoToR2 e videoPath vid w =
     (let key = ''videos/'' @ vid @ ''/'' @ basename videoPath;
          w1 = w\<lparr>upload_log := upload_log w @ [key]\<rparr>;
          publicUrl = storage_base e @ ''/'' @ key;
          presigned = publicUrl @ ''?token=sample_token&expires='' @ show_nat (now_ms e + 7200 * 1000)
      in if upload_ok e key then (Inr (publicUrl, presigned), w1) else (Inl UploadFailed, w1))"

text \<open>
  The body of the \<open>try\<close> block after the directory is made; the \<open>catch\<close> block logs and
  rethrows, so an error of any stage is the result, with the world as that stage left it.
  \<open>debugMode\<close> and the request id (clock and random number) are parameters.
\<close>

definition make_temp_dir :: "string \<Rightarrow> world \<Rightarrow> world" where
  "make_temp_dir tempDir w = (if tempDir \<in> set (dirs w) then w else w\<lparr>dirs := dirs w @ [tempDir]\<rparr>)"

definition remove_temp_dir :: "string \<Rightarrow> world \<Rightarrow> world" where
  "remove_temp_dir tempDir w = w\<lparr>dirs := removeAll tempDir (dirs w)\<rparr>"

definition processVideoRequest ::
  "'t::{zero,plus} env \<Rightarrow> bool \<Rightarrow> string \<Rightarrow> recitation_file list \<Rightarrow> background \<Rightarrow> ayah list \<Rightarrow> world \<Rightarrow>
   (error + video_result) \<times> world" where
  "processVideoRequest e debugMode request_id recitation_files bg ayat w =
     (let tempDir = path_join (path_join (cwd e) ''temp'') request_id;
          w0 = make_temp_dir tempDir w
      in case downloadFiles e recitation_files bg ayat tempDir w0 of
           (Inl err, w1) \<Rightarrow> (Inl err, w1)
         | (Inr d, w1) \<Rightarrow>
        (case concatenateMedia e (d_videoPaths d) ''video'' tempDir w1 of
           (Inl err, w2) \<Rightarrow> (Inl err, w2)
         | (Inr finalVideoInput, w2) \<Rightarrow>
        (case concatenateMedia e (d_audioPaths d) ''audio'' tempDir w2 of
           (Inl err, w3) \<Rightarrow> (Inl err, w3)
         | (Inr audioInput, w3) \<Rightarrow>
        (case generateArabicImages e ayat tempDir w3 of
           ((arabicImagePaths, arabicTextHeights), w4) \<Rightarrow>
        (case generateTranslationImages e ayat tempDir w4 of
           ((translationImagePaths, translationTextHeights), w5) \<Rightarrow>
        (case buildVideoWithOverlays e finalVideoInput audioInput arabicImagePaths translationImagePaths
                ayat (d_audioDurations d) translationTextHeights arabicTextHeights tempDir w5 of
           (Inl err, w6) \<Rightarrow> (Inl err, w6)
         | (Inr finalOutputPath, w6) \<Rightarrow>
        (case uploadVideoToR2 e finalOutputPath request_id w6 of
           (Inl err, w7) \<Rightarrow> (Inl err, w7)
         | (Inr (publicUrl, presigned), w7) \<Rightarrow>
             (Inr \<lparr>r_output = finalOutputPath, r_videoUrl = publicUrl, r_presignedUrl = presigned,
                   r_videoId = request_id\<rparr>,
              if \<not> debugMode then remove_temp_dir tempDir w7 else w7))))))))"

section \<open>Observations used in the statements\<close>

text \<open>
  The URL the first loop of \<open>downloadFiles\<close> builds for a recitation entry (no URL when
  \<open>audio_files\<close> is empty: reading \<open>.url\<close> of \<open>undefined\<close> throws); the entry with
  every audio file but the first removed; the URLs requested between two worlds; for an
  entry (index, link) of \<open>background.links.entries()\<close>, whether the second loop fetches it
  and the path it is stored at.
\<close>

definition audioUrl_of :: "recitation_file \<Rightarrow> string option" where
  "audioUrl_of recitation_file =
     (case audio_files recitation_file of [] \<Rightarrow> None | first # _ \<Rightarrow> Some (audio_prefix @ url first))"

definition fetched_since :: "world \<Rightarrow> world \<Rightarrow> string list" where
  "fetched_since w w' = drop (length (fetch_log w)) (fetch_log w')"

definition first_only :: "recitation_file \<Rightarrow> recitation_file" where
  "first_only recitation_file = recitation_file\<lparr>audio_files := take 1 (audio_files recitation_file)\<rparr>"

definition background_path :: "string \<Rightarrow> nat \<times> string \<Rightarrow> string" where
  "background_path tempDir entry = path_join tempDir (''background_'' @ show_nat (fst entry) @ ''.mp4'')"

definition eligible_entry :: "nat \<times> string \<Rightarrow> bool" where
  "eligible_entry entry = startsWith (snd entry) pixabay_prefix"

text \<open>
  A line as the wrap loop builds it from a list of words, each followed by one space; and the
  wrap loop run on lists of words instead of strings: \<open>cur\<close> holds the words of the
  candidate line, and the result is the list of word groups, one group per line.
\<close>

definition line_of :: "string list \<Rightarrow> string" where
  "line_of ws = concat (map (\<lambda>w. w @ '' '') ws)"

fun wrap_groups :: "(string \<Rightarrow> 'w::linorder) \<Rightarrow> 'w \<Rightarrow> string list \<Rightarrow> string list \<Rightarrow> string list list" where
  "wrap_groups measureText maxWidth [] cur = [cur]"
| "wrap_groups measureText maxWidth (word # words) cur =
     (if measureText (line_of (cur @ [word])) > maxWidth \<and> cur \<noteq> []
      then cur # wrap_groups measureText maxWidth words [word]
      else wrap_groups measureText maxWidth words (cur @ [word]))"

section \<open>Example inputs\<close>

text \<open>A request of two verses, an environment in which every collaborator succeeds (text
  measured at 30 and 15 units per byte, every audio file one second long), and a world with
  nothing in it.\<close>

definition verse_a :: ayah where
  "verse_a = \<lparr>verse_key = ''1:1'', aya = ''alif lam'', translation = ''first verse''\<rparr>"

definition verse_b :: ayah where
  "verse_b = \<lparr>verse_key = ''1:2'', aya = ''mim'', translation = ''second verse''\<rparr>"

definition width_arabic :: "string \<Rightarrow> real" where
  "width_arabic s = 30 * real (length s)"

definition width_translation :: "string \<Rightarrow> real" where
  "width_translation s = 15 * real (length s)"

definition always :: "'a \<Rightarrow> bool" where
  "always x = True"

definition one_second :: "string \<Rightarrow> real option" where
  "one_second p = Some 1"

definition concat_always :: "string \<Rightarrow> string list \<Rightarrow> bool" where
  "concat_always type ps = True"

definition accepting_env :: "real env" where
  "accepting_env =
     \<lparr>fetch_ok = always, probe_duration = one_second, concat_ok = concat_always,
      encode_ok = always, upload_ok = always,
      measure_arabic = width_arabic, measure_translation = width_translation,
      cwd = ''/app'', storage_base = ''https://account.r2.cloudflarestorage.com/bucket'', now_ms = 0\<rparr>"

definition empty_world :: world where
  "empty_world = \<lparr>dirs = [], files = [], fetch_log = [], ffmpeg_log = [], upload_log = []\<rparr>"

text \<open>An environment in which every download fails, a background with one link of each
  kind, and one recitation entry with two audio files.\<close>

definition never :: "'a \<Rightarrow> bool" where
  "never x = False"

definition rejecting_env :: "real env" where
  "rejecting_env = accepting_env\<lparr>fetch_ok := never\<rparr>"

definition two_links :: background where
  "two_links = \<lparr>links = [''https://example.com/w.mp4'', ''https://cdn.pixabay.com/v.mp4'']\<rparr>"

definition one_recitation :: "recitation_file list" where
  "one_recitation = [\<lparr>audio_files = [\<lparr>url = ''a/1.mp3''\<rparr>, \<lparr>url = ''b/1.mp3''\<rparr>]\<rparr>]"

text \<open>A background whose only link is not on the accepted host.\<close>

definition one_foreign_link :: background where
  "one_foreign_link = \<lparr>links = [''https://example.com/w.mp4'']\<rparr>"

section \<open>The timeline is a running sum\<close>

lemma start_times_loop_snd: "snd (start_times_loop ds c ss) = foldl (+) c ds"
  by (induction ds arbitrary: c ss) simp_all

lemma start_times_loop_length: "length (fst (start_times_loop ds c ss)) = length ss + length ds"
  by (induction ds arbitrary: c ss) simp_all

lemma start_times_loop_old: "i < length ss \<Longrightarrow> fst (start_times_loop ds c ss) ! i = ss ! i"
  by (induction ds arbitrary: c ss) (simp_all add: nth_append)

lemma start_times_loop_new:
  "i < length ds \<Longrightarrow> fst (start_times_loop ds c ss) ! (length ss + i) = foldl (+) c (take i ds)"
proof (induction ds arbitrary: c ss i)
  case Nil
  then show ?case by simp
next
  case (Cons d ds)
  show ?case
  proof (cases i)
    case 0
    then show ?thesis by (simp add: start_times_loop_old)
  next
    case (Suc j)
    with Cons.prems have "j < length ds" by simp
    from Cons.IH [OF this, of "c + d" "ss @ [c]"] Suc show ?thesis by simp
  qed
qed

lemma length_startTimes_of: "length (startTimes_of ds) = length ds"
  by (simp add: startTimes_of_def timeline_def start_times_loop_length)

lemma startTimes_of_nth: "i < length ds \<Longrightarrow> startTimes_of ds ! i = foldl (+) 0 (take i ds)"
  using start_times_loop_new [of i ds 0 "[]"] by (simp add: startTimes_of_def timeline_def)

lemma totalDuration_of_foldl: "totalDuration_of ds = foldl (+) 0 ds"
  by (simp add: totalDuration_of_def timeline_def start_times_loop_snd)

lemma startTime_at_Some: "i < length ds \<Longrightarrow> startTime_at ds i = Some (foldl (+) 0 (take i ds))"
  by (simp add: startTime_at_def js_index_def length_startTimes_of startTimes_of_nth)

lemma startTime_at_None: "\<not> i < length ds \<Longrightarrow> startTime_at ds i = None"
  by (simp add: startTime_at_def js_index_def length_startTimes_of)

lemma endTime_at_Some:
  "i < length ds \<Longrightarrow> endTime_at ds i = Some (foldl (+) 0 (take i ds) + ds ! i)"
  by (simp add: endTime_at_def startTime_at_Some js_index_def js_add_def)

lemma endTime_at_None: "\<not> i < length ds \<Longrightarrow> endTime_at ds i = None"
  by (simp add: endTime_at_def startTime_at_None js_add_def)

lemma foldl_take_Suc: "i < length ds \<Longrightarrow> foldl f a (take (Suc i) ds) = f (foldl f a (take i ds)) (ds ! i)"
  by (simp add: take_Suc_conv_app_nth)

lemma totalDuration_of_last:
  fixes ds :: "'t::{zero,plus} list"
  assumes "ds \<noteq> []"
  shows "Some (totalDuration_of ds) = endTime_at ds (length ds - 1)"
proof -
  obtain n where n: "length ds = Suc n"
    using assms by (cases ds) auto
  then have lt: "n < length ds" by simp
  have "take (Suc n) ds = ds" using n by simp
  with foldl_take_Suc [OF lt, of "(+)" 0]
  have "foldl (+) 0 ds = foldl (+) 0 (take n ds) + ds ! n" by simp
  then show ?thesis
    using n by (simp add: totalDuration_of_foldl endTime_at_Some [OF lt])
qed

lemma startTime_at_Suc:
  fixes ds :: "'t::{zero,plus} list"
  shows "Suc i < length ds \<Longrightarrow> startTime_at ds (Suc i) = endTime_at ds i"
  by (simp add: startTime_at_Some endTime_at_Some foldl_take_Suc)

lemma timeline_example:
  "timeline [3, 4, 5 :: real] = ([0, 3, 7], 12) \<and>
   map (endTime_at [3, 4, 5 :: real]) [0, 1, 2] = [Some 3, Some 7, Some 12]"
  by (simp add: timeline_def endTime_at_def startTime_at_def startTimes_of_def js_index_def js_add_def)

text \<open>
  C1. For a non-empty list of durations and every index \<open>i\<close>: there is one start time per
  duration; \<open>start[i]\<close> is the sum, taken in order from 0, of the durations before \<open>i\<close>;
  \<open>end[i] = start[i] + duration[i]\<close>; \<open>start[i+1] = end[i]\<close>; the total duration is the
  end of the last entry. For durations 3, 4, 5 the starts are 0, 3, 7, the ends 3, 7, 12 and
  the total is 12.
\<close>

theorem timeline_running_sum:
  fixes audioDurations :: "'t::{zero,plus} list"
  assumes "audioDurations \<noteq> []" and "i < length audioDurations"
  shows "length (startTimes_of audioDurations) = length audioDurations \<and>
    startTime_at audioDurations i = Some (foldl (+) 0 (take i audioDurations)) \<and>
    endTime_at audioDurations i = js_add (startTime_at audioDurations i) (Some (audioDurations ! i)) \<and>
    (Suc i < length audioDurations \<longrightarrow> startTime_at audioDurations (Suc i) = endTime_at audioDurations i) \<and>
    Some (totalDuration_of audioDurations) = endTime_at audioDurations (length audioDurations - 1) \<and>
    timeline [3, 4, 5 :: real] = ([0, 3, 7], 12) \<and>
    map (endTime_at [3, 4, 5 :: real]) [0, 1, 2] = [Some 3, Some 7, Some 12]"
proof -
  have "endTime_at audioDurations i = js_add (startTime_at audioDurations i) (Some (audioDurations ! i))"
    using assms(2) by (simp add: endTime_at_def js_index_def)
  with assms show ?thesis
    using length_startTimes_of [of audioDurations] startTime_at_Some [of i audioDurations]
      startTime_at_Suc [of i audioDurations] totalDuration_of_last [of audioDurations] timeline_example
    by blast
qed

theorem timeline_running_sum_witness:
  "[3, 4, 5 :: real] \<noteq> [] \<and> 1 < length [3, 4, 5 :: real] \<and>
   startTime_at [3, 4, 5 :: real] 1 = Some (foldl (+) 0 (take 1 [3, 4, 5])) \<and>
   Suc 1 < length [3, 4, 5 :: real] \<and> startTime_at [3, 4, 5 :: real] (Suc 1) = endTime_at [3, 4, 5] 1 \<and>
   Some (totalDuration_of [3, 4, 5 :: real]) = endTime_at [3, 4, 5] (length [3, 4, 5 :: real] - 1)"
proof -
  have a: "[3, 4, 5 :: real] \<noteq> []" by simp
  have b: "1 < length [3, 4, 5 :: real]" by simp
  have c: "Suc 1 < length [3, 4, 5 :: real]" by simp
  from timeline_running_sum [OF a b] a b c show ?thesis by blast
qed

lemma foldl_plus_sum_list:
  fixes ds :: "'t::monoid_add list"
  shows "foldl (+) a ds = a + sum_list ds"
  by (induction ds arbitrary: a) (simp_all add: add.assoc)

section \<open>The compositing graph\<close>

lemma fst_overlay_step:
  "fst (overlay_step nA sts ds ths ahs st i) =
     fst st @
     [TimedOverlay (snd st) (i + nA + 4)
        (js_sub (js_sub (Some watermarkY) (js_add (js_index ths i) (Some 100))) (Some 50))
        (js_index sts i) (js_add (js_index sts i) (js_index ds i)) (Trans i),
      TimedOverlay (Trans i) (i + 4)
        (js_sub (js_sub (js_sub (Some watermarkY) (js_add (js_index ths i) (Some 100))) (Some 50))
           (js_add (js_index ahs i) (Some 24)))
        (js_index sts i) (js_add (js_index sts i) (js_index ds i)) (Arabic i)]"
  by (simp add: overlay_step_def Let_def)

lemma snd_overlay_step: "snd (overlay_step nA sts ds ths ahs st i) = Arabic i"
  by (simp add: overlay_step_def Let_def)

lemma overlay_fold_length:
  "length (fst (foldl (overlay_step nA sts ds ths ahs) (parts, l) [0..<n])) = length parts + 2 * n"
  by (induction n) (simp_all add: fst_overlay_step)

lemma overlay_fold_label:
  "snd (foldl (overlay_step nA sts ds ths ahs) (parts, l) [0..<n]) = (if n = 0 then l else Arabic (n - 1))"
  by (induction n) (simp_all add: snd_overlay_step)

lemma overlay_fold_old:
  "j < length parts \<Longrightarrow> fst (foldl (overlay_step nA sts ds ths ahs) (parts, l) [0..<n]) ! j = parts ! j"
  by (induction n) (simp_all add: fst_overlay_step nth_append overlay_fold_length)

lemma overlay_fold_translation:
  "i < n \<Longrightarrow>
   fst (foldl (overlay_step nA sts ds ths ahs) (parts, l) [0..<n]) ! (length parts + 2 * i) =
     TimedOverlay (if i = 0 then l else Arabic (i - 1)) (i + nA + 4)
       (js_sub (js_sub (Some watermarkY) (js_add (js_index ths i) (Some 100))) (Some 50))
       (js_index sts i) (js_add (js_index sts i) (js_index ds i)) (Trans i)"
proof (induction n)
  case 0
  then show ?case by simp
next
  case (Suc n)
  show ?case
  proof (cases "i < n")
    case True
    with Suc.IH show ?thesis
      by (simp add: fst_overlay_step nth_append overlay_fold_length)
  next
    case False
    with Suc.prems have "i = n" by simp
    then show ?thesis
      by (simp add: fst_overlay_step nth_append overlay_fold_length overlay_fold_label)
  qed
qed

lemma overlay_fold_arabic:
  "i < n \<Longrightarrow>
   fst (foldl (overlay_step nA sts ds ths ahs) (parts, l) [0..<n]) ! (length parts + 2 * i + 1) =
     TimedOverlay (Trans i) (i + 4)
       (js_sub (js_sub (js_sub (Some watermarkY) (js_add (js_index ths i) (Some 100))) (Some 50))
          (js_add (js_index ahs i) (Some 24)))
       (js_index sts i) (js_add (js_index sts i) (js_index ds i)) (Arabic i)"
proof (induction n)
  case 0
  then show ?case by simp
next
  case (Suc n)
  show ?case
  proof (cases "i < n")
    case True
    then have "length parts + 2 * i + 1 < length parts + 2 * n" by simp
    with Suc.IH [OF True] show ?thesis
      by (simp add: fst_overlay_step nth_append overlay_fold_length)
  next
    case False
    with Suc.prems have "i = n" by simp
    then show ?thesis
      by (simp add: fst_overlay_step nth_append overlay_fold_length)
  qed
qed


lemma filter_graph_label:
  "snd (filter_graph aps ayat ds ths ahs) = (if ayat = [] then WithWatermark else Arabic (length ayat - 1))"
  by (simp add: filter_graph_def overlay_fold_label)

lemma filter_graph_fixed:
  "take 4 (fst (filter_graph aps ayat ds ths ahs)) =
     [ScaleBackground, VignetteOverlay, ScaleWatermark, WatermarkOverlay watermarkY]"
  by (rule nth_equalityI)
     (auto simp add: filter_graph_def overlay_fold_length overlay_fold_old nth_Cons' )

lemma filter_graph_translation:
  "i < length ayat \<Longrightarrow>
   fst (filter_graph aps ayat ds ths ahs) ! (4 + 2 * i) =
     TimedOverlay (if i = 0 then WithWatermark else Arabic (i - 1)) (i + length aps + 4)
       (js_sub (js_sub (Some watermarkY) (js_add (js_index ths i) (Some 100))) (Some 50))
       (startTime_at ds i) (endTime_at ds i) (Trans i)"
proof -
  assume "i < length ayat"
  have ix: "4 + 2 * i = length [ScaleBackground, VignetteOverlay, ScaleWatermark, WatermarkOverlay watermarkY :: 'a filter_part] + 2 * i"
    by simp
  show ?thesis
    unfolding ix filter_graph_def startTime_at_def endTime_at_def
    by (rule overlay_fold_translation [OF \<open>i < length ayat\<close>])
qed

lemma filter_graph_arabic:
  "i < length ayat \<Longrightarrow>
   fst (filter_graph aps ayat ds ths ahs) ! (5 + 2 * i) =
     TimedOverlay (Trans i) (i + 4)
       (js_sub (js_sub (js_sub (Some watermarkY) (js_add (js_index ths i) (Some 100))) (Some 50))
          (js_add (js_index ahs i) (Some 24)))
       (startTime_at ds i) (endTime_at ds i) (Arabic i)"
proof -
  assume "i < length ayat"
  have ix: "5 + 2 * i = length [ScaleBackground, VignetteOverlay, ScaleWatermark, WatermarkOverlay watermarkY :: 'a filter_part] + 2 * i + 1"
    by simp
  show ?thesis
    unfolding ix filter_graph_def startTime_at_def endTime_at_def
    by (rule overlay_fold_arabic [OF \<open>i < length ayat\<close>])
qed

section \<open>Visibility windows\<close>

lemma enabled_at_window:
  fixes ds :: "'t::{zero,plus,linorder} list"
  assumes "i < length ayat" and "startTime_at ds i = Some s" and "endTime_at ds i = Some e"
  shows "enabled_at (fst (filter_graph aps ayat ds ths ahs) ! (4 + 2 * i)) t = Some (s \<le> t \<and> t \<le> e)"
    and "enabled_at (fst (filter_graph aps ayat ds ths ahs) ! (5 + 2 * i)) t = Some (s \<le> t \<and> t \<le> e)"
  using assms by (simp_all add: filter_graph_translation filter_graph_arabic between_def)

lemma two_verse_times:
  fixes d0 d1 :: "'t::{zero,plus}"
  shows "startTime_at [d0, d1] 0 = Some 0" and "endTime_at [d0, d1] 0 = Some (0 + d0)"
    and "startTime_at [d0, d1] (Suc 0) = Some (0 + d0)" and "endTime_at [d0, d1] (Suc 0) = Some (0 + d0 + d1)"
    and "startTime_at [d0, d1] 1 = Some (0 + d0)" and "endTime_at [d0, d1] 1 = Some (0 + d0 + d1)"
    and "totalDuration_of [d0, d1] = 0 + d0 + d1"
  by (simp_all add: startTime_at_Some endTime_at_Some totalDuration_of_foldl)

lemma two_verse_windows:
  fixes d0 d1 :: "'t::{zero,plus,linorder}"
  shows "enabled_at (fst (filter_graph aps [a0, a1] [d0, d1] ths ahs) ! 4) t = Some (0 \<le> t \<and> t \<le> 0 + d0)"
    and "enabled_at (fst (filter_graph aps [a0, a1] [d0, d1] ths ahs) ! 5) t = Some (0 \<le> t \<and> t \<le> 0 + d0)"
    and "enabled_at (fst (filter_graph aps [a0, a1] [d0, d1] ths ahs) ! 6) t = Some (0 + d0 \<le> t \<and> t \<le> 0 + d0 + d1)"
    and "enabled_at (fst (filter_graph aps [a0, a1] [d0, d1] ths ahs) ! 7) t = Some (0 + d0 \<le> t \<and> t \<le> 0 + d0 + d1)"
  using enabled_at_window [of 0 "[a0, a1]" "[d0, d1]" 0 "0 + d0" aps ths ahs t]
    enabled_at_window [of 1 "[a0, a1]" "[d0, d1]" "0 + d0" "0 + d0 + d1" aps ths ahs t]
  by (simp_all add: two_verse_times)

text \<open>
  C2, as stated, fails: the window of the second of two verses lasting 2 and 3 seconds is
  from 2 to 5, and its translation overlay is enabled at \<open>t = 5\<close>, which the half-open
  window excludes; at \<open>t = 2\<close> the overlays of both verses are enabled.
\<close>

theorem overlay_window_half_open_counterexample:
  "startTime_at [2, 3 :: real] 1 = Some 2 \<and> endTime_at [2, 3 :: real] 1 = Some 5 \<and>
   enabled_at (fst (filter_graph [''a0.png'', ''a1.png'']
       [verse_a, verse_b]
       [2, 3 :: real] [45, 45] [100, 100]) ! 6) 5 = Some True \<and>
   \<not> half_open_window (2 :: real) 5 5 \<and>
   enabled_at (fst (filter_graph [''a0.png'', ''a1.png'']
       [verse_a, verse_b]
       [2, 3 :: real] [45, 45] [100, 100]) ! 4) 2 = Some True \<and>
   enabled_at (fst (filter_graph [''a0.png'', ''a1.png'']
       [verse_a, verse_b]
       [2, 3 :: real] [45, 45] [100, 100]) ! 6) 2 = Some True"
  by (simp add: two_verse_windows two_verse_times half_open_window_def)

text \<open>
  C2, amended. For every verse \<open>i\<close> with a start and an end time, the translation overlay
  (part \<open>4 + 2i\<close>) and the primary-text overlay (part \<open>5 + 2i\<close>) are enabled exactly at the
  times \<open>t\<close> with \<open>start[i] \<le> t \<le> end[i]\<close>, both ends included. For two verses, the two
  windows are both enabled only at the instant \<open>end[0] = start[1]\<close>, and every time from 0
  to the total duration, both included, lies in one of them.
\<close>

theorem overlay_windows_closed:
  fixes audioDurations :: "'t::{zero,plus,linorder} list" and d0 d1 :: 't
  shows
   "(i < length ayat \<and> startTime_at audioDurations i = Some s \<and> endTime_at audioDurations i = Some e \<longrightarrow>
       enabled_at (fst (filter_graph aps ayat audioDurations ths ahs) ! (4 + 2 * i)) t = Some (s \<le> t \<and> t \<le> e) \<and>
       enabled_at (fst (filter_graph aps ayat audioDurations ths ahs) ! (5 + 2 * i)) t = Some (s \<le> t \<and> t \<le> e)) \<and>
    (enabled_at (fst (filter_graph aps [a0, a1] [d0, d1] ths ahs) ! 4) u = Some True \<and>
     enabled_at (fst (filter_graph aps [a0, a1] [d0, d1] ths ahs) ! 6) u = Some True \<longrightarrow>
       endTime_at [d0, d1] 0 = Some u \<and> startTime_at [d0, d1] 1 = Some u) \<and>
    (0 \<le> u \<and> u \<le> totalDuration_of [d0, d1] \<longrightarrow>
       enabled_at (fst (filter_graph aps [a0, a1] [d0, d1] ths ahs) ! 4) u = Some True \<or>
       enabled_at (fst (filter_graph aps [a0, a1] [d0, d1] ths ahs) ! 6) u = Some True)"
proof (intro conjI impI)
  assume "i < length ayat \<and> startTime_at audioDurations i = Some s \<and> endTime_at audioDurations i = Some e"
  then show "enabled_at (fst (filter_graph aps ayat audioDurations ths ahs) ! (4 + 2 * i)) t = Some (s \<le> t \<and> t \<le> e)"
    and "enabled_at (fst (filter_graph aps ayat audioDurations ths ahs) ! (5 + 2 * i)) t = Some (s \<le> t \<and> t \<le> e)"
    by (simp_all add: enabled_at_window)
next
  assume "enabled_at (fst (filter_graph aps [a0, a1] [d0, d1] ths ahs) ! 4) u = Some True \<and>
     enabled_at (fst (filter_graph aps [a0, a1] [d0, d1] ths ahs) ! 6) u = Some True"
  then have "u \<le> 0 + d0" and "0 + d0 \<le> u"
    by (simp_all add: two_verse_windows)
  then have "u = 0 + d0" by (rule antisym)
  then show "endTime_at [d0, d1] 0 = Some u" and "startTime_at [d0, d1] 1 = Some u"
    by (simp_all add: two_verse_times)
next
  assume "0 \<le> u \<and> u \<le> totalDuration_of [d0, d1]"
  then have "0 \<le> u" and "u \<le> 0 + d0 + d1"
    by (simp_all add: two_verse_times)
  moreover have "u \<le> 0 + d0 \<or> 0 + d0 \<le> u" by (rule linear)
  ultimately show "enabled_at (fst (filter_graph aps [a0, a1] [d0, d1] ths ahs) ! 4) u = Some True \<or>
       enabled_at (fst (filter_graph aps [a0, a1] [d0, d1] ths ahs) ! 6) u = Some True"
    by (auto simp add: two_verse_windows)
qed

theorem overlay_windows_closed_witness:
  "(1::nat) < length [verse_a, verse_b] \<and>
   startTime_at [2, 3 :: real] 1 = Some 2 \<and> endTime_at [2, 3 :: real] 1 = Some 5 \<and>
   enabled_at (fst (filter_graph [''a0.png'', ''a1.png'']
       [verse_a, verse_b]
       [2, 3 :: real] [45, 45] [100, 100]) ! (4 + 2 * 1)) 5 = Some ((2::real) \<le> 5 \<and> (5::real) \<le> 5) \<and>
   (0::real) \<le> 2 \<and> (2::real) \<le> totalDuration_of [2, 3 :: real] \<and>
   endTime_at [2, 3 :: real] 0 = Some 2"
proof -
  have a: "(1::nat) < length [verse_a, verse_b]" by simp
  have b: "startTime_at [2, 3 :: real] 1 = Some 2" by (simp add: two_verse_times)
  have c: "endTime_at [2, 3 :: real] 1 = Some 5" by (simp add: two_verse_times)
  have d: "(0::real) \<le> 2 \<and> (2::real) \<le> totalDuration_of [2, 3 :: real]" by (simp add: two_verse_times)
  have e: "endTime_at [2, 3 :: real] 0 = Some 2" by (simp add: two_verse_times)
  from overlay_windows_closed [of 1 "[verse_a, verse_b]" "[2, 3 :: real]" 2 5
        "[''a0.png'', ''a1.png'']" "[45, 45]" "[100, 100]" 5] a b c d e
  show ?thesis by blast
qed

section \<open>Graph construction for any lists\<close>

lemma arabic_images_loop_result:
  "fst (arabic_images_loop e tempDir ayat ips hs w) =
     (ips @ map (\<lambda>a. path_join tempDir (''arabic_'' @ replace_colons (verse_key a) @ ''.png'')) ayat,
      hs @ map (\<lambda>a. int (length (wrap_lines (measure_arabic e) (950 * 0.9) (aya a))) * 100) ayat)"
  by (induction ayat arbitrary: ips hs w) (simp_all add: Let_def renderArabicTextImage_def)

lemma translation_images_loop_result:
  "fst (translation_images_loop e tempDir ayat ips hs w) =
     (ips @ map (\<lambda>a. path_join tempDir (''translation_'' @ replace_colons (verse_key a) @ ''.png'')) ayat,
      hs @ map (\<lambda>a. int (length (wrap_lines (measure_translation e) (950 * 0.9) (translation a))) * 45) ayat)"
  by (induction ayat arbitrary: ips hs w) (simp_all add: Let_def renderTranslationTextImage_def)

lemma generated_layers_aligned:
  "length (fst (fst (generateArabicImages e ayat tempDir w))) = length ayat"
  "length (snd (fst (generateArabicImages e ayat tempDir w))) = length ayat"
  "length (fst (fst (generateTranslationImages e ayat tempDir w'))) = length ayat"
  "length (snd (fst (generateTranslationImages e ayat tempDir w'))) = length ayat"
  by (simp_all add: generateArabicImages_def generateTranslationImages_def
        arabic_images_loop_result translation_images_loop_result)

lemma cmd_filter_encode_command:
  "cmd_filter (encode_command e vp ap aps tps ayat ds ths ahs tempDir) = fst (filter_graph aps ayat ds ths ahs)"
  "cmd_map (encode_command e vp ap aps tps ayat ds ths ahs tempDir) = snd (filter_graph aps ayat ds ths ahs)"
  "cmd_duration (encode_command e vp ap aps tps ayat ds ths ahs tempDir) = totalDuration_of ds"
  "cmd_output (encode_command e vp ap aps tps ayat ds ths ahs tempDir) = slashes (path_join tempDir ''final_output.mp4'')"
  by (simp_all add: encode_command_def Let_def)

lemma buildVideoWithOverlays_result:
  "fst (buildVideoWithOverlays e vp ap aps tps ayat ds ths ahs tempDir w) =
     (if encode_ok e (encode_command e vp ap aps tps ayat ds ths ahs tempDir)
      then Inr (slashes (path_join tempDir ''final_output.mp4'')) else Inl EncodeFailed)"
  by (simp add: buildVideoWithOverlays_def Let_def cmd_filter_encode_command)



section \<open>Concatenation of no file and of one file\<close>

text \<open>
  C5. \<open>concatenateMedia\<close> on no path fails with the error "No <type> files to
  concatenate" (the design document's \<open>NoMediaError\<close>); on exactly one path it returns that
  path and leaves the world as it was: no file written, no backend run.
\<close>

theorem concatenateMedia_none_and_one:
  "concatenateMedia e [] type tempDir w = (Inl (NoFilesToConcatenate type), w) \<and>
   concatenateMedia e [p] type tempDir w = (Inr p, w)"
  by (simp add: concatenateMedia_def)

section \<open>Heights of the rendered text images\<close>

lemma img_height_draw_canvas:
  "img_height (draw_canvas width lineHeight lines) = int (length lines) * lineHeight + 100"
  by (simp add: draw_canvas_def Let_def)

text \<open>
  C7, as stated, fails for the translation rasterizer: the one-line text \<open>a\<close> has content
  height 45 and a canvas of height 145, which is not 45 plus one line height of 45.
\<close>

theorem translation_margin_counterexample:
  "fst (renderTranslationTextImage width_translation ''a'' ''t.png'' empty_world) = 45 \<and>
   files (snd (renderTranslationTextImage width_translation ''a'' ''t.png'' empty_world)) =
     [(''t.png'', Png \<lparr>img_width = 950, img_height = 145, img_lines = [(''a '', 475, 72.5)]\<rparr>)] \<and>
   (145 :: int) \<noteq> 45 + 45"
  by (simp add: renderTranslationTextImage_def wrap_lines_def draw_canvas_def Let_def write_file_def
        empty_world_def)

text \<open>
  C7, amended. For every text and every width measure, when the wrap gives N lines the
  reported content height is \<open>N * 100\<close> for the primary text and \<open>N * 45\<close> for the
  translation, and in both the canvas written is 100 pixels higher than the content: the
  padding is the constant 100, which is one line height for the primary text only.
\<close>

theorem canvas_height_fixed_padding:
  "fst (renderArabicTextImage m text out w) = int (length (wrap_lines m (950 * 0.9) text)) * 100 \<and>
   snd (renderArabicTextImage m text out w) =
     write_file out (Png (draw_canvas 950 100 (wrap_lines m (950 * 0.9) text))) w \<and>
   img_height (draw_canvas 950 100 (wrap_lines m (950 * 0.9) text)) =
     fst (renderArabicTextImage m text out w) + 100 \<and>
   fst (renderTranslationTextImage m text out w) = int (length (wrap_lines m (950 * 0.9) text)) * 45 \<and>
   snd (renderTranslationTextImage m text out w) =
     write_file out (Png (draw_canvas 950 45 (wrap_lines m (950 * 0.9) text))) w \<and>
   img_height (draw_canvas 950 45 (wrap_lines m (950 * 0.9) text)) =
     fst (renderTranslationTextImage m text out w) + 100"
  by (simp add: renderArabicTextImage_def renderTranslationTextImage_def Let_def img_height_draw_canvas)

section \<open>Downloads\<close>

lemma fetch_log_write_file [simp]: "fetch_log (write_file p c w) = fetch_log w"
  by (simp add: write_file_def)

lemma fetch_log_do_fetch [simp]: "fetch_log (do_fetch u w) = fetch_log w @ [u]"
  by (simp add: do_fetch_def)

lemma eligible_entry_pair [simp]: "eligible_entry (k, u) = startsWith u pixabay_prefix"
  by (simp add: eligible_entry_def)

lemma background_path_pair [simp]:
  "background_path td (k, u) = path_join td (''background_'' @ show_nat k @ ''.mp4'')"
  by (simp add: background_path_def)

lemma audio_loop_log:
  "\<exists>us. fetch_log (snd (audio_loop e td ayat i rfs aps ads w)) = fetch_log w @ us \<and>
        prefix (map Some us) (map audioUrl_of rfs) \<and>
        (\<forall>r. fst (audio_loop e td ayat i rfs aps ads w) = Inr r \<longrightarrow> map Some us = map audioUrl_of rfs)"
proof (induction rfs arbitrary: i aps ads w)
  case Nil
  then show ?case by simp
next
  case (Cons rf rfs)
  show ?case
  proof (cases "audio_files rf")
    case Nil
    then show ?thesis by simp
  next
    case (Cons f fs)
    let ?u = "audio_prefix @ url f"
    have u: "audioUrl_of rf = Some ?u"
      by (simp add: audioUrl_of_def Cons)
    show ?thesis
    proof (cases "fetch_ok e ?u")
      case False
      with Cons u show ?thesis
        by (auto simp add: Let_def intro!: exI [of _ "[?u]"])
    next
      case True
      let ?key = "case js_index ayat i of None \<Rightarrow> ''unknown-'' @ show_nat i | Some verse \<Rightarrow> verse_key verse"
      let ?p = "path_join td (''audio_'' @ replace_colons ?key @ ''.mp3'')"
      let ?w2 = "write_file ?p (Fetched ?u) (do_fetch ?u w)"
      show ?thesis
      proof (cases "probe_duration e ?p")
        case None
        with Cons u True show ?thesis
          by (auto simp add: Let_def intro!: exI [of _ "[?u]"])
      next
        case (Some d)
        from Cons.IH [of "Suc i" "aps @ [?p]" "ads @ [d]" ?w2]
        obtain us where us: "fetch_log (snd (audio_loop e td ayat (Suc i) rfs (aps @ [?p]) (ads @ [d]) ?w2)) = fetch_log ?w2 @ us"
          "prefix (map Some us) (map audioUrl_of rfs)"
          "\<forall>r. fst (audio_loop e td ayat (Suc i) rfs (aps @ [?p]) (ads @ [d]) ?w2) = Inr r \<longrightarrow> map Some us = map audioUrl_of rfs"
          by blast
        have step: "audio_loop e td ayat i (rf # rfs) aps ads w
            = audio_loop e td ayat (Suc i) rfs (aps @ [?p]) (ads @ [d]) ?w2"
          using Cons True Some by (simp add: Let_def)
        show ?thesis
          unfolding step using us u by (auto intro!: exI [of _ "?u # us"])
      qed
    qed
  qed
qed

lemma audio_loop_first_only:
  "audio_loop e td ayat i (map first_only rfs) aps ads w = audio_loop e td ayat i rfs aps ads w"
proof (induction rfs arbitrary: i aps ads w)
  case Nil
  then show ?case by simp
next
  case (Cons rf rfs)
  then show ?case
    by (cases "audio_files rf") (simp_all add: first_only_def Let_def split: option.splits)
qed

lemma video_loop_log:
  "\<exists>us. fetch_log (snd (video_loop e td k ls vps w)) = fetch_log w @ us \<and>
        prefix us (filter (\<lambda>u. startsWith u pixabay_prefix) ls) \<and>
        (\<forall>r. fst (video_loop e td k ls vps w) = Inr r \<longrightarrow>
           us = filter (\<lambda>u. startsWith u pixabay_prefix) ls \<and>
           r = vps @ map (background_path td) (filter eligible_entry (enumerate k ls)))"
proof (induction ls arbitrary: k vps w)
  case Nil
  then show ?case by simp
next
  case (Cons u ls)
  show ?case
  proof (cases "startsWith u pixabay_prefix")
    case False
    with Cons.IH [of "Suc k" vps w] show ?thesis
      by simp
  next
    case True
    show ?thesis
    proof (cases "fetch_ok e u")
      case False
      with True show ?thesis
        by (auto simp add: Let_def intro!: exI [of _ "[u]"])
    next
      case ok: True
      let ?p = "path_join td (''background_'' @ show_nat k @ ''.mp4'')"
      let ?w2 = "write_file ?p (Fetched u) (do_fetch u w)"
      from Cons.IH [of "Suc k" "vps @ [?p]" ?w2]
      obtain us where us: "fetch_log (snd (video_loop e td (Suc k) ls (vps @ [?p]) ?w2)) = fetch_log ?w2 @ us"
        "prefix us (filter (\<lambda>u. startsWith u pixabay_prefix) ls)"
        "\<forall>r. fst (video_loop e td (Suc k) ls (vps @ [?p]) ?w2) = Inr r \<longrightarrow>
           us = filter (\<lambda>u. startsWith u pixabay_prefix) ls \<and>
           r = (vps @ [?p]) @ map (background_path td) (filter eligible_entry (enumerate (Suc k) ls))"
        by blast
      have step: "video_loop e td k (u # ls) vps w = video_loop e td (Suc k) ls (vps @ [?p]) ?w2"
        using True ok by (simp add: Let_def)
      show ?thesis
        unfolding step using us True
        by (intro exI [of _ "u # us"]) simp
    qed
  qed
qed

lemma video_loop_error:
  "fst (video_loop e td k ls vps w) = Inl err \<Longrightarrow>
   \<exists>u. u \<in> set ls \<and> startsWith u pixabay_prefix \<and> \<not> fetch_ok e u \<and> err = VideoDownloadFailed u"
proof (induction ls arbitrary: k vps w)
  case Nil
  then show ?case by simp
next
  case (Cons a ls)
  show ?case
  proof (cases "startsWith a pixabay_prefix")
    case False
    with Cons.prems have "fst (video_loop e td (Suc k) ls vps w) = Inl err" by simp
    from Cons.IH [OF this] show ?thesis by auto
  next
    case True
    show ?thesis
    proof (cases "fetch_ok e a")
      case False
      with True Cons.prems show ?thesis
        by (auto simp add: Let_def)
    next
      case ok: True
      with True Cons.prems
      have "fst (video_loop e td (Suc k) ls (vps @ [path_join td (''background_'' @ show_nat k @ ''.mp4'')])
               (write_file (path_join td (''background_'' @ show_nat k @ ''.mp4'')) (Fetched a) (do_fetch a w))) = Inl err"
        by (simp add: Let_def)
      from Cons.IH [OF this] show ?thesis by auto
    qed
  qed
qed


lemma fetched_since_append [simp]: "fetch_log w' = fetch_log w @ us \<Longrightarrow> fetched_since w w' = us"
  by (simp add: fetched_since_def)

lemma audio_phase_requests:
  "prefix (map Some (fetched_since w (snd (audio_loop e td ayat i rfs aps ads w)))) (map audioUrl_of rfs)"
  "fst (audio_loop e td ayat i rfs aps ads w) = Inr r \<Longrightarrow>
     map Some (fetched_since w (snd (audio_loop e td ayat i rfs aps ads w))) = map audioUrl_of rfs"
  using audio_loop_log [of e td ayat i rfs aps ads w] by auto


lemma downloadFiles_success:
  assumes "fst (downloadFiles e rfs bg ayat td w) = Inr d"
  shows "map Some (fetched_since w (snd (downloadFiles e rfs bg ayat td w))) =
           map audioUrl_of rfs @ map Some (filter (\<lambda>u. startsWith u pixabay_prefix) (links bg))"
    and "d_videoPaths d = map (background_path td) (filter eligible_entry (enumerate 0 (links bg)))"
    and "d_videoPaths d \<noteq> []"
proof -
  obtain ra w1 where a: "audio_loop e td ayat 0 rfs [] [] w = (ra, w1)"
    by (cases "audio_loop e td ayat 0 rfs [] [] w")
  with assms obtain aps ads where ra: "ra = Inr (aps, ads)"
    by (cases ra) (auto simp add: downloadFiles_def)
  obtain rv w2 where v: "video_loop e td 0 (links bg) [] w1 = (rv, w2)"
    by (cases "video_loop e td 0 (links bg) [] w1")
  with assms a ra obtain vps where rv: "rv = Inr vps"
    by (cases rv) (auto simp add: downloadFiles_def)
  from assms a ra v rv have ne: "vps \<noteq> []" and d: "d = \<lparr>d_audioPaths = aps, d_audioDurations = ads, d_videoPaths = vps\<rparr>"
    and w': "snd (downloadFiles e rfs bg ayat td w) = w2"
    by (auto simp add: downloadFiles_def split: if_splits)
  from audio_loop_log [of e td ayat 0 rfs "[]" "[]" w] a ra
  obtain us where us: "fetch_log w1 = fetch_log w @ us" "map Some us = map audioUrl_of rfs"
    by auto
  from video_loop_log [of e td 0 "links bg" "[]" w1] v rv
  obtain vs where vs: "fetch_log w2 = fetch_log w1 @ vs" "vs = filter (\<lambda>u. startsWith u pixabay_prefix) (links bg)"
    "vps = map (background_path td) (filter eligible_entry (enumerate 0 (links bg)))"
    by auto
  from us vs have "fetch_log w2 = fetch_log w @ (us @ vs)" by simp
  then have "fetched_since w w2 = us @ vs" by (rule fetched_since_append)
  with us vs w' show "map Some (fetched_since w (snd (downloadFiles e rfs bg ayat td w))) =
           map audioUrl_of rfs @ map Some (filter (\<lambda>u. startsWith u pixabay_prefix) (links bg))"
    by simp
  from d vs show "d_videoPaths d = map (background_path td) (filter eligible_entry (enumerate 0 (links bg)))"
    by simp
  from d ne show "d_videoPaths d \<noteq> []" by simp
qed


lemma downloadFiles_first_only:
  "downloadFiles e (map first_only rfs) bg ayat td w = downloadFiles e rfs bg ayat td w"
  by (simp add: downloadFiles_def audio_loop_first_only)

lemma prefix_nth: "prefix xs ys \<Longrightarrow> i < length xs \<Longrightarrow> i < length ys \<and> ys ! i = xs ! i"
  by (auto simp add: prefix_def nth_append)

lemma eligible_examples:
  "startsWith ''https://cdn.pixabay.com/v.mp4'' pixabay_prefix"
  "\<not> startsWith ''https://example.com/w.mp4'' pixabay_prefix"
  by (simp_all add: startsWith_def pixabay_prefix_def)


lemma download_two_links_rejected:
  "downloadFiles rejecting_env [] two_links [] ''/app/temp/r1'' empty_world =
     (Inl (VideoDownloadFailed ''https://cdn.pixabay.com/v.mp4''),
      \<lparr>dirs = [], files = [], fetch_log = [''https://cdn.pixabay.com/v.mp4''], ffmpeg_log = [], upload_log = []\<rparr>)"
  by (simp add: downloadFiles_def two_links_def eligible_examples rejecting_env_def accepting_env_def never_def Let_def
        path_join_def show_nat.simps write_file_def do_fetch_def empty_world_def)



text \<open>
  C10. The result and the effects of \<open>downloadFiles\<close> are the same when every recitation
  entry keeps only the first element of its \<open>audio_files\<close>. The \<open>i\<close>-th URL requested
  by the audio loop is \<open>https://verses.quran.com/\<close> followed by the \<open>url\<close> of the first
  audio file of the \<open>i\<close>-th entry; when \<open>downloadFiles\<close> succeeds there is one such
  request for every entry.
\<close>

theorem audio_url_first_file_only:
  "downloadFiles e (map first_only rfs) bg ayat td w = downloadFiles e rfs bg ayat td w \<and>
   (i < length (fetched_since w (snd (audio_loop e td ayat 0 rfs [] [] w))) \<longrightarrow>
      i < length rfs \<and>
      audioUrl_of (rfs ! i) = Some (fetched_since w (snd (audio_loop e td ayat 0 rfs [] [] w)) ! i)) \<and>
   (fst (downloadFiles e rfs bg ayat td w) = Inr d \<longrightarrow>
      take (length rfs) (map Some (fetched_since w (snd (downloadFiles e rfs bg ayat td w)))) = map audioUrl_of rfs)"
proof (intro conjI impI)
  show "downloadFiles e (map first_only rfs) bg ayat td w = downloadFiles e rfs bg ayat td w"
    by (rule downloadFiles_first_only)
next
  let ?us = "fetched_since w (snd (audio_loop e td ayat 0 rfs [] [] w))"
  assume "i < length ?us"
  then have l: "i < length (map Some ?us)" by simp
  have p: "prefix (map Some ?us) (map audioUrl_of rfs)"
    by (rule audio_phase_requests(1))
  have "i < length (map audioUrl_of rfs) \<and> map audioUrl_of rfs ! i = map Some ?us ! i"
    by (rule prefix_nth [OF p l])
  with \<open>i < length ?us\<close>
  show "i < length rfs" and "audioUrl_of (rfs ! i) = Some (?us ! i)"
    by auto
next
  assume "fst (downloadFiles e rfs bg ayat td w) = Inr d"
  from downloadFiles_success(1) [OF this]
  show "take (length rfs) (map Some (fetched_since w (snd (downloadFiles e rfs bg ayat td w)))) = map audioUrl_of rfs"
    by simp
qed

lemma fetch_log_empty_world: "fetch_log empty_world = []"
  by (simp add: empty_world_def)

lemma audio_loop_one_recitation:
  "audio_loop accepting_env ''/app/temp/r1'' [] 0 one_recitation [] [] empty_world =
     (Inr ([''/app/temp/r1/audio_unknown-0.mp3''], [1]),
      \<lparr>dirs = [], files = [(''/app/temp/r1/audio_unknown-0.mp3'', Fetched ''https://verses.quran.com/a/1.mp3'')],
       fetch_log = [''https://verses.quran.com/a/1.mp3''], ffmpeg_log = [], upload_log = []\<rparr>)"
  by (simp add: one_recitation_def js_index_def audio_prefix_def accepting_env_def always_def one_second_def
        Let_def path_join_def show_nat.simps replace_colons_def write_file_def do_fetch_def empty_world_def)

theorem audio_url_first_file_only_witness:
  "(0::nat) < length (fetched_since empty_world (snd (audio_loop accepting_env ''/app/temp/r1'' [] 0 one_recitation [] [] empty_world))) \<and>
   fetched_since empty_world (snd (audio_loop accepting_env ''/app/temp/r1'' [] 0 one_recitation [] [] empty_world)) ! 0
     = ''https://verses.quran.com/a/1.mp3'' \<and>
   audioUrl_of (one_recitation ! 0) =
     Some (fetched_since empty_world (snd (audio_loop accepting_env ''/app/temp/r1'' [] 0 one_recitation [] [] empty_world)) ! 0)"
proof -
  have a: "(0::nat) < length (fetched_since empty_world (snd (audio_loop accepting_env ''/app/temp/r1'' [] 0 one_recitation [] [] empty_world)))"
    by (simp add: audio_loop_one_recitation fetched_since_def fetch_log_empty_world)
  have b: "fetched_since empty_world (snd (audio_loop accepting_env ''/app/temp/r1'' [] 0 one_recitation [] [] empty_world)) ! 0
     = ''https://verses.quran.com/a/1.mp3''"
    by (simp add: audio_loop_one_recitation fetched_since_def fetch_log_empty_world)
  from audio_url_first_file_only [where e = accepting_env and rfs = one_recitation and ayat = "[]"
      and td = "''/app/temp/r1''" and w = empty_world and i = 0] a b
  show ?thesis by blast
qed

section \<open>The temporary directory\<close>

lemma dirs_write_file [simp]: "dirs (write_file p c w) = dirs w"
  by (simp add: write_file_def)

lemma dirs_do_fetch [simp]: "dirs (do_fetch u w) = dirs w"
  by (simp add: do_fetch_def)

lemma dirs_audio_loop: "dirs (snd (audio_loop e td ayat i rfs aps ads w)) = dirs w"
proof (induction rfs arbitrary: i aps ads w)
  case Nil
  then show ?case by simp
next
  case (Cons rf rfs)
  then show ?case
    by (cases "audio_files rf") (simp_all add: Let_def split: option.splits)
qed

lemma dirs_video_loop: "dirs (snd (video_loop e td k ls vps w)) = dirs w"
  by (induction ls arbitrary: k vps w) (simp_all add: Let_def)

lemma dirs_downloadFiles: "dirs (snd (downloadFiles e rfs bg ayat td w)) = dirs w"
proof -
  obtain ra w1 where a: "audio_loop e td ayat 0 rfs [] [] w = (ra, w1)"
    by (cases "audio_loop e td ayat 0 rfs [] [] w")
  obtain rv w2 where v: "video_loop e td 0 (links bg) [] w1 = (rv, w2)"
    by (cases "video_loop e td 0 (links bg) [] w1")
  from a dirs_audio_loop [of e td ayat 0 rfs "[]" "[]" w] have 1: "dirs w1 = dirs w" by simp
  from v dirs_video_loop [of e td 0 "links bg" "[]" w1] have 2: "dirs w2 = dirs w1" by simp
  from a v 1 2 show ?thesis
    by (simp add: downloadFiles_def split: sum.splits prod.splits)
qed

lemma dirs_concatenateMedia: "dirs (snd (concatenateMedia e ps type td w)) = dirs w"
  by (simp add: concatenateMedia_def Let_def)

lemma dirs_arabic_images_loop: "dirs (snd (arabic_images_loop e td ayat ips hs w)) = dirs w"
  by (induction ayat arbitrary: ips hs w) (simp_all add: Let_def renderArabicTextImage_def)

lemma dirs_translation_images_loop: "dirs (snd (translation_images_loop e td ayat ips hs w)) = dirs w"
  by (induction ayat arbitrary: ips hs w) (simp_all add: Let_def renderTranslationTextImage_def)

lemma dirs_buildVideoWithOverlays:
  "dirs (snd (buildVideoWithOverlays e vp ap aps tps ayat ds ths ahs td w)) = dirs w"
  by (simp add: buildVideoWithOverlays_def Let_def)

lemma dirs_uploadVideoToR2: "dirs (snd (uploadVideoToR2 e vp vid w)) = dirs w"
  by (simp add: uploadVideoToR2_def Let_def)

lemma make_temp_dir_in: "td \<in> set (dirs (make_temp_dir td w))"
  by (simp add: make_temp_dir_def)

lemma remove_temp_dir_out: "td \<notin> set (dirs (remove_temp_dir td w))"
  by (simp add: remove_temp_dir_def)

text \<open>
  After any request the temporary directory exists exactly when the request failed or
  \<open>debugMode\<close> is set: no stage removes it, and only the end of the success path does.
\<close>

lemma temp_dir_after_request:
  fixes e :: "'t::{zero,plus} env"
  shows "path_join (path_join (cwd e) ''temp'') rid \<in> set (dirs (snd (processVideoRequest e debugMode rid rfs bg ayat w)))
     \<longleftrightarrow> (\<exists>err. fst (processVideoRequest e debugMode rid rfs bg ayat w) = Inl err) \<or> debugMode"
proof -
  let ?td = "path_join (path_join (cwd e) ''temp'') rid"
  let ?w0 = "make_temp_dir ?td w"
  have 0: "?td \<in> set (dirs ?w0)" by (rule make_temp_dir_in)
  obtain r1 w1 where s1: "downloadFiles e rfs bg ayat ?td ?w0 = (r1, w1)"
    by (cases "downloadFiles e rfs bg ayat ?td ?w0")
  with dirs_downloadFiles [of e rfs bg ayat ?td ?w0] have d1: "dirs w1 = dirs ?w0" by simp
  show ?thesis
  proof (cases r1)
    case (Inl err)
    with s1 0 d1 show ?thesis by (simp add: processVideoRequest_def Let_def)
  next
    case (Inr d)
    obtain r2 w2 where s2: "concatenateMedia e (d_videoPaths d) ''video'' ?td w1 = (r2, w2)"
      by (cases "concatenateMedia e (d_videoPaths d) ''video'' ?td w1")
    with dirs_concatenateMedia [of e "d_videoPaths d" "''video''" ?td w1] have d2: "dirs w2 = dirs w1" by simp
    show ?thesis
    proof (cases r2)
      case (Inl err)
      with s1 Inr s2 0 d1 d2 show ?thesis by (simp add: processVideoRequest_def Let_def)
    next
      case v: (Inr finalVideoInput)
      obtain r3 w3 where s3: "concatenateMedia e (d_audioPaths d) ''audio'' ?td w2 = (r3, w3)"
        by (cases "concatenateMedia e (d_audioPaths d) ''audio'' ?td w2")
      with dirs_concatenateMedia [of e "d_audioPaths d" "''audio''" ?td w2] have d3: "dirs w3 = dirs w2" by simp
      show ?thesis
      proof (cases r3)
        case (Inl err)
        with s1 Inr s2 v s3 0 d1 d2 d3 show ?thesis by (simp add: processVideoRequest_def Let_def)
      next
        case a: (Inr audioInput)
        obtain aps ahs w4 where s4: "generateArabicImages e ayat ?td w3 = ((aps, ahs), w4)"
          by (cases "generateArabicImages e ayat ?td w3") auto
        with dirs_arabic_images_loop [of e ?td ayat "[]" "[]" w3] have d4: "dirs w4 = dirs w3"
          by (simp add: generateArabicImages_def)
        obtain tps ths w5 where s5: "generateTranslationImages e ayat ?td w4 = ((tps, ths), w5)"
          by (cases "generateTranslationImages e ayat ?td w4") auto
        with dirs_translation_images_loop [of e ?td ayat "[]" "[]" w4] have d5: "dirs w5 = dirs w4"
          by (simp add: generateTranslationImages_def)
        obtain r6 w6 where s6: "buildVideoWithOverlays e finalVideoInput audioInput aps tps ayat
            (d_audioDurations d) ths ahs ?td w5 = (r6, w6)"
          by (cases "buildVideoWithOverlays e finalVideoInput audioInput aps tps ayat
            (d_audioDurations d) ths ahs ?td w5")
        with dirs_buildVideoWithOverlays [of e finalVideoInput audioInput aps tps ayat "d_audioDurations d" ths ahs ?td w5]
        have d6: "dirs w6 = dirs w5" by simp
        from 0 d1 d2 d3 d4 d5 d6 have in6: "?td \<in> set (dirs w6)" by simp
        show ?thesis
        proof (cases r6)
          case (Inl err)
          with s1 Inr s2 v s3 a s4 s5 s6 in6 show ?thesis by (simp add: processVideoRequest_def Let_def)
        next
          case b: (Inr finalOutputPath)
          obtain r7 w7 where s7: "uploadVideoToR2 e finalOutputPath rid w6 = (r7, w7)"
            by (cases "uploadVideoToR2 e finalOutputPath rid w6")
          with dirs_uploadVideoToR2 [of e finalOutputPath rid w6] have d7: "dirs w7 = dirs w6" by simp
          show ?thesis
          proof (cases r7)
            case (Inl err)
            with s1 Inr s2 v s3 a s4 s5 s6 b s7 in6 d7 show ?thesis by (simp add: processVideoRequest_def Let_def)
          next
            case u: (Inr urls)
            with s1 Inr s2 v s3 a s4 s5 s6 b s7 in6 d7 show ?thesis
              by (cases urls) (simp add: processVideoRequest_def Let_def remove_temp_dir_out)
          qed
        qed
      qed
    qed
  qed
qed

text \<open>
  C9. The claim is that a request that fails after its temporary directory was made still
  removes it, whatever the debug flag. The code does not: with \<open>debugMode\<close> off, a request
  whose only background link is not on the accepted host fails with "No valid background
  video provided" after the audio was downloaded, and the directory and the audio file in it
  are still there.
\<close>

theorem temp_dir_left_after_failure:
  "processVideoRequest accepting_env False ''r1'' one_recitation one_foreign_link [verse_a] empty_world =
     (Inl NoValidBackground,
      \<lparr>dirs = [''/app/temp/r1''],
       files = [(''/app/temp/r1/audio_1_1.mp3'', Fetched ''https://verses.quran.com/a/1.mp3'')],
       fetch_log = [''https://verses.quran.com/a/1.mp3''], ffmpeg_log = [], upload_log = []\<rparr>)"
  by (simp add: processVideoRequest_def downloadFiles_def one_recitation_def one_foreign_link_def verse_a_def
        make_temp_dir_def js_index_def audio_prefix_def pixabay_prefix_def startsWith_def
        accepting_env_def always_def one_second_def Let_def path_join_def replace_colons_def
        write_file_def do_fetch_def empty_world_def)

section \<open>Word wrap\<close>

lemma line_of_snoc: "line_of (cur @ [w]) = line_of cur @ w @ '' ''"
  by (simp add: line_of_def)

lemma line_of_single: "line_of [w] = w @ '' ''"
  by (simp add: line_of_def)

lemma line_of_empty_iff: "line_of cur = [] \<longleftrightarrow> cur = []"
  by (cases cur) (simp_all add: line_of_def)

lemma wrap_loop_groups:
  "wrap_loop m W ws (line_of cur) lines = lines @ map line_of (wrap_groups m W ws cur)"
proof (induction ws arbitrary: cur lines)
  case Nil
  then show ?case by simp
next
  case (Cons w ws)
  show ?case
  proof (cases "m (line_of (cur @ [w])) > W \<and> cur \<noteq> []")
    case True
    with Cons.IH [of "[w]" "lines @ [line_of cur]"] show ?thesis
      by (simp add: Let_def line_of_snoc line_of_single line_of_empty_iff)
  next
    case False
    then have "wrap_loop m W (w # ws) (line_of cur) lines = wrap_loop m W ws (line_of (cur @ [w])) lines"
      by (auto simp add: Let_def line_of_snoc line_of_empty_iff)
    moreover from False have "wrap_groups m W (w # ws) cur = wrap_groups m W ws (cur @ [w])"
      by auto
    ultimately show ?thesis
      using Cons.IH [of "cur @ [w]" lines] by simp
  qed
qed

lemma concat_wrap_groups: "concat (wrap_groups m W ws cur) = cur @ ws"
  by (induction ws arbitrary: cur) simp_all

lemma wrap_groups_nonempty: "cur \<noteq> [] \<or> ws \<noteq> [] \<Longrightarrow> [] \<notin> set (wrap_groups m W ws cur)"
  by (induction ws arbitrary: cur) auto

lemma split_space_nonempty: "split_space s \<noteq> []"
  by (induction s) (simp_all split: list.splits)

lemma wrap_lines_groups:
  "wrap_lines m W text = map line_of (wrap_groups m W (split_space text) [])"
  using wrap_loop_groups [of m W "split_space text" "[]" "[]"]
  by (simp add: wrap_lines_def line_of_def)

lemma wrap_groups_count:
  fixes m :: "string \<Rightarrow> 'w::linorder"
  assumes her: "\<And>us vs. m (line_of vs) \<le> m (line_of (us @ vs))" and le: "W' \<le> W"
  shows "(suffix cur cur' \<longrightarrow> length (wrap_groups m W ws cur) \<le> length (wrap_groups m W' ws cur')) \<and>
         length (wrap_groups m W ws cur) \<le> Suc (length (wrap_groups m W' ws cur'))"
proof (induction ws arbitrary: cur cur')
  case Nil
  show ?case by simp
next
  case (Cons w ws)
  let ?wide = "m (line_of (cur @ [w])) > W \<and> cur \<noteq> []"
  let ?narrow = "m (line_of (cur' @ [w])) > W' \<and> cur' \<noteq> []"
  have same: "length (wrap_groups m W ws [w]) \<le> length (wrap_groups m W' ws [w])"
    using Cons.IH [of "[w]" "[w]"] by simp
  have restart: "length (wrap_groups m W ws [w]) \<le> length (wrap_groups m W' ws (cur' @ [w]))"
    using Cons.IH [of "[w]" "cur' @ [w]"] by (simp add: suffix_def)
  have behind1: "length (wrap_groups m W ws (cur @ [w])) \<le> Suc (length (wrap_groups m W' ws [w]))"
    using Cons.IH [of "cur @ [w]" "[w]"] by simp
  have behind2: "length (wrap_groups m W ws (cur @ [w])) \<le> Suc (length (wrap_groups m W' ws (cur' @ [w])))"
    using Cons.IH [of "cur @ [w]" "cur' @ [w]"] by simp
  have second: "length (wrap_groups m W (w # ws) cur) \<le> Suc (length (wrap_groups m W' (w # ws) cur'))"
    using same restart behind1 behind2 by auto
  have first: "length (wrap_groups m W (w # ws) cur) \<le> length (wrap_groups m W' (w # ws) cur')"
    if suf: "suffix cur cur'"
  proof (cases ?wide)
    case True
    from suf obtain us where us: "cur' = us @ cur" by (auto simp add: suffix_def)
    then have "m (line_of (cur @ [w])) \<le> m (line_of (cur' @ [w]))"
      using her [of "cur @ [w]" us] by simp
    with True le us have ?narrow by auto
    with True same show ?thesis by simp
  next
    case False
    have grow: "length (wrap_groups m W ws (cur @ [w])) \<le> length (wrap_groups m W' ws (cur' @ [w]))"
      using Cons.IH [of "cur @ [w]" "cur' @ [w]"] suf by (simp add: suffix_def)
    from False grow behind1 show ?thesis by auto
  qed
  from first second show ?case by blast
qed

text \<open>
  C6. For every width measure and every wrap width, the lines are the words of the text
  (\<open>text.split(' ')\<close>) in order, cut into non-empty groups, each word whole and followed
  by one space: no word is split, however wide. If removing leading words from a line never
  makes it wider under the measure, then a smaller wrap width never gives fewer lines
  (for any text, so also when every word is narrower than the wrap width).
\<close>

theorem wrap_keeps_words_whole:
  fixes measureText :: "string \<Rightarrow> 'w::linorder"
  shows "(\<exists>groups. concat groups = split_space text \<and> [] \<notin> set groups \<and>
            wrap_lines measureText maxWidth text = map line_of groups) \<and>
         ((\<forall>us vs. measureText (line_of vs) \<le> measureText (line_of (us @ vs))) \<and> maxWidth' \<le> maxWidth \<longrightarrow>
            length (wrap_lines measureText maxWidth text) \<le> length (wrap_lines measureText maxWidth' text))"
proof (intro conjI impI)
  let ?g = "wrap_groups measureText maxWidth (split_space text) []"
  have "concat ?g = split_space text"
    by (simp add: concat_wrap_groups)
  moreover have "[] \<notin> set ?g"
    by (rule wrap_groups_nonempty) (simp add: split_space_nonempty)
  moreover have "wrap_lines measureText maxWidth text = map line_of ?g"
    by (rule wrap_lines_groups)
  ultimately show "\<exists>groups. concat groups = split_space text \<and> [] \<notin> set groups \<and>
            wrap_lines measureText maxWidth text = map line_of groups"
    by blast
next
  assume a: "(\<forall>us vs. measureText (line_of vs) \<le> measureText (line_of (us @ vs))) \<and> maxWidth' \<le> maxWidth"
  then have her: "\<And>us vs. measureText (line_of vs) \<le> measureText (line_of (us @ vs))"
    and le: "maxWidth' \<le> maxWidth" by auto
  from wrap_groups_count [of measureText maxWidth' maxWidth "[]" "[]" "split_space text", OF her le]
  show "length (wrap_lines measureText maxWidth text) \<le> length (wrap_lines measureText maxWidth' text)"
    by (simp add: wrap_lines_groups)
qed

lemma line_of_append: "line_of (us @ vs) = line_of us @ line_of vs"
  by (simp add: line_of_def)

lemma width_translation_leading_words:
  "\<forall>us vs. width_translation (line_of vs) \<le> width_translation (line_of (us @ vs))"
  by (simp add: width_translation_def line_of_append)

lemma wrap_examples:
  "wrap_lines width_translation 400 ''aa bb cc'' = [''aa bb cc '']"
  "wrap_lines width_translation 100 ''aa bb cc'' = [''aa bb '', ''cc '']"
  "wrap_lines width_translation 100 ''abcdefghijklmnop qq'' = [''abcdefghijklmnop '', ''qq '']"
  by (simp_all add: wrap_lines_def width_translation_def Let_def)

theorem wrap_keeps_words_whole_witness:
  "(\<forall>us vs. width_translation (line_of vs) \<le> width_translation (line_of (us @ vs))) \<and>
   (100 :: real) \<le> 400 \<and>
   wrap_lines width_translation 400 ''aa bb cc'' = [''aa bb cc ''] \<and>
   wrap_lines width_translation 100 ''aa bb cc'' = [''aa bb '', ''cc ''] \<and>
   length (wrap_lines width_translation 400 ''aa bb cc'') \<le> length (wrap_lines width_translation 100 ''aa bb cc'')"
proof -
  have a: "(100 :: real) \<le> 400" by simp
  from wrap_keeps_words_whole [of "''aa bb cc''" width_translation 400 100] width_translation_leading_words a
  have "length (wrap_lines width_translation 400 ''aa bb cc'') \<le> length (wrap_lines width_translation 100 ''aa bb cc'')"
    by blast
  with width_translation_leading_words a wrap_examples(1,2) show ?thesis by blast
qed

section \<open>Requests without verses or without recitations\<close>

lemma audio_loop_lengths:
  "fst (audio_loop e td ayat i rfs aps ads w) = Inr (aps', ads') \<Longrightarrow>
   length aps' = length aps + length rfs \<and> length ads' = length ads + length rfs"
proof (induction rfs arbitrary: i aps ads w)
  case Nil
  then show ?case by simp
next
  case (Cons rf rfs)
  show ?case
  proof (cases "audio_files rf")
    case Nil
    with Cons.prems show ?thesis by simp
  next
    case (Cons f fs)
    let ?u = "audio_prefix @ url f"
    let ?key = "case js_index ayat i of None \<Rightarrow> ''unknown-'' @ show_nat i | Some verse \<Rightarrow> verse_key verse"
    let ?p = "path_join td (''audio_'' @ replace_colons ?key @ ''.mp3'')"
    let ?w2 = "write_file ?p (Fetched ?u) (do_fetch ?u w)"
    from Cons Cons.prems have ok: "fetch_ok e ?u"
      by (auto simp add: Let_def split: if_splits)
    with Cons Cons.prems obtain d where d: "probe_duration e ?p = Some d"
      by (cases "probe_duration e ?p") (auto simp add: Let_def)
    with Cons ok Cons.prems
    have "fst (audio_loop e td ayat (Suc i) rfs (aps @ [?p]) (ads @ [d]) ?w2) = Inr (aps', ads')"
      by (simp add: Let_def)
    from Cons.IH [OF this] show ?thesis by simp
  qed
qed

lemma downloadFiles_durations:
  assumes "fst (downloadFiles e rfs bg ayat td w) = Inr d"
  shows "length (d_audioDurations d) = length rfs" and "length (d_audioPaths d) = length rfs"
proof -
  obtain ra w1 where a: "audio_loop e td ayat 0 rfs [] [] w = (ra, w1)"
    by (cases "audio_loop e td ayat 0 rfs [] [] w")
  with assms obtain aps ads where ra: "ra = Inr (aps, ads)"
    by (cases ra) (auto simp add: downloadFiles_def)
  obtain rv w2 where v: "video_loop e td 0 (links bg) [] w1 = (rv, w2)"
    by (cases "video_loop e td 0 (links bg) [] w1")
  with assms a ra obtain vps where rv: "rv = Inr vps"
    by (cases rv) (auto simp add: downloadFiles_def)
  from assms a ra v rv have d: "d = \<lparr>d_audioPaths = aps, d_audioDurations = ads, d_videoPaths = vps\<rparr>"
    by (auto simp add: downloadFiles_def split: if_splits)
  from a ra audio_loop_lengths [of e td ayat 0 rfs "[]" "[]" w aps ads]
  have "length aps = length rfs \<and> length ads = length rfs" by simp
  with d show "length (d_audioDurations d) = length rfs" and "length (d_audioPaths d) = length rfs"
    by simp_all
qed

lemma downloadFiles_error_no_recitations:
  assumes "fst (downloadFiles e [] bg ayat td w) = Inl err"
  shows "err = NoValidBackground \<or> (\<exists>u. err = VideoDownloadFailed u)"
proof -
  obtain rv w2 where v: "video_loop e td 0 (links bg) [] w = (rv, w2)"
    by (cases "video_loop e td 0 (links bg) [] w")
  show ?thesis
  proof (cases rv)
    case (Inl err')
    with v assms have "err' = err" by (simp add: downloadFiles_def)
    with v Inl video_loop_error [of e td 0 "links bg" "[]" w err] show ?thesis by auto
  next
    case (Inr vps)
    with v assms show ?thesis by (simp add: downloadFiles_def split: if_splits)
  qed
qed

lemma concatenateMedia_error:
  "fst (concatenateMedia e ps type td w) = Inl err \<Longrightarrow>
   err = NoFilesToConcatenate type \<or> err = ConcatFailed type"
  by (auto simp add: concatenateMedia_def Let_def split: if_splits)

lemma no_recitations_request_fails:
  fixes e :: "'t::{zero,plus} env"
  shows "\<exists>err. fst (processVideoRequest e debugMode rid [] bg ayat w) = Inl err \<and>
           (err = NoFilesToConcatenate ''audio'' \<or> err = ConcatFailed ''video'' \<or>
            err = NoValidBackground \<or> (\<exists>u. err = VideoDownloadFailed u))"
proof -
  let ?td = "path_join (path_join (cwd e) ''temp'') rid"
  let ?w0 = "make_temp_dir ?td w"
  obtain r1 w1 where s1: "downloadFiles e [] bg ayat ?td ?w0 = (r1, w1)"
    by (cases "downloadFiles e [] bg ayat ?td ?w0")
  show ?thesis
  proof (cases r1)
    case (Inl err)
    with s1 downloadFiles_error_no_recitations [of e bg ayat ?td ?w0 err]
    show ?thesis by (auto simp add: processVideoRequest_def Let_def)
  next
    case (Inr d)
    with s1 downloadFiles_durations(2) [of e "[]" bg ayat ?td ?w0 d] have none: "d_audioPaths d = []"
      by simp
    from s1 Inr downloadFiles_success(3) [of e "[]" bg ayat ?td ?w0 d] have some: "d_videoPaths d \<noteq> []"
      by simp
    obtain r2 w2 where s2: "concatenateMedia e (d_videoPaths d) ''video'' ?td w1 = (r2, w2)"
      by (cases "concatenateMedia e (d_videoPaths d) ''video'' ?td w1")
    show ?thesis
    proof (cases r2)
      case (Inl err)
      with s2 some have "err = ConcatFailed ''video''"
        by (auto simp add: concatenateMedia_def Let_def split: if_splits)
      with s1 Inr s2 Inl show ?thesis by (simp add: processVideoRequest_def Let_def)
    next
      case v: (Inr finalVideoInput)
      with s1 Inr s2 none show ?thesis
        by (simp add: processVideoRequest_def Let_def concatenateMedia_def)
    qed
  qed
qed

lemma filter_graph_no_verses:
  "filter_graph aps [] ds ths ahs =
     ([ScaleBackground, VignetteOverlay, ScaleWatermark, WatermarkOverlay watermarkY], WithWatermark)"
  by (simp add: filter_graph_def)

text \<open>
  C4, as stated, fails: a request with one recitation entry and no verse at all raises no
  error. Every stage runs, the backend is called once, and the request returns its result.
\<close>

theorem zero_verses_request_counterexample:
  "fst (processVideoRequest accepting_env False ''r1'' one_recitation two_links [] empty_world) =
     Inr \<lparr>r_output = ''/app/temp/r1/final_output.mp4'',
          r_videoUrl = ''https://account.r2.cloudflarestorage.com/bucket/videos/r1/final_output.mp4'',
          r_presignedUrl = ''https://account.r2.cloudflarestorage.com/bucket/videos/r1/final_output.mp4?token=sample_token&expires=7200000'',
          r_videoId = ''r1''\<rparr> \<and>
   ffmpeg_log (snd (processVideoRequest accepting_env False ''r1'' one_recitation two_links [] empty_world)) =
     [''/app/temp/r1/final_output.mp4'']"
  by (simp add: processVideoRequest_def downloadFiles_def one_recitation_def two_links_def
        make_temp_dir_def remove_temp_dir_def js_index_def audio_prefix_def eligible_examples
        accepting_env_def always_def one_second_def concat_always_def Let_def path_join_def
        replace_colons_def show_nat.simps write_file_def do_fetch_def empty_world_def
        concatenateMedia_def generateArabicImages_def generateTranslationImages_def
        buildVideoWithOverlays_def encode_command_def uploadVideoToR2_def basename_def slashes_def)

text \<open>
  C4, amended. There is no empty-timeline error. A request without recitation entries
  always fails before the timeline is computed: with "No audio files to concatenate" once
  the backgrounds are downloaded and joined, and otherwise with the error of the background
  download or of the video concatenation. The durations that reach the timeline are one per
  recitation entry, and so are the start times, whatever the number of verses. With zero
  verses the graph is the four fixed parts with the watermark stage as final label, and
  \<open>buildVideoWithOverlays\<close> fails only when the backend's encode run does.
\<close>

theorem no_empty_timeline_error:
  fixes e :: "'t::{zero,plus} env"
  shows
   "(\<exists>err. fst (processVideoRequest e debugMode rid [] bg ayat w) = Inl err \<and>
        (err = NoFilesToConcatenate ''audio'' \<or> err = ConcatFailed ''video'' \<or>
         err = NoValidBackground \<or> (\<exists>u. err = VideoDownloadFailed u))) \<and>
    (fst (downloadFiles e rfs bg ayat td w) = Inr d \<longrightarrow>
       length (d_audioDurations d) = length rfs \<and>
       length (startTimes_of (d_audioDurations d)) = length rfs) \<and>
    filter_graph aps [] (ds :: 't list) ths ahs =
      ([ScaleBackground, VignetteOverlay, ScaleWatermark, WatermarkOverlay watermarkY], WithWatermark) \<and>
    fst (buildVideoWithOverlays e vp ap aps tps [] ds ths ahs td' w') =
      (if encode_ok e (encode_command e vp ap aps tps [] ds ths ahs td')
       then Inr (slashes (path_join td' ''final_output.mp4'')) else Inl EncodeFailed)"
  using no_recitations_request_fails [of e debugMode rid bg ayat w]
    downloadFiles_durations(1) [of e rfs bg ayat td w d]
  by (simp add: filter_graph_no_verses buildVideoWithOverlays_result length_startTimes_of)

lemma download_one_recitation:
  "fst (downloadFiles accepting_env one_recitation two_links [] ''/app/temp/r1'' empty_world) =
     Inr \<lparr>d_audioPaths = [''/app/temp/r1/audio_unknown-0.mp3''], d_audioDurations = [1],
          d_videoPaths = [''/app/temp/r1/background_1.mp4'']\<rparr>"
  by (simp add: downloadFiles_def one_recitation_def two_links_def js_index_def audio_prefix_def
        eligible_examples accepting_env_def always_def one_second_def Let_def path_join_def
        replace_colons_def show_nat.simps write_file_def do_fetch_def empty_world_def)

lemma no_recitations_example:
  "fst (processVideoRequest accepting_env False ''r1'' [] two_links [verse_a] empty_world) =
     Inl (NoFilesToConcatenate ''audio'')"
  by (simp add: processVideoRequest_def downloadFiles_def two_links_def
        make_temp_dir_def eligible_examples
        accepting_env_def always_def Let_def path_join_def
        show_nat.simps write_file_def do_fetch_def empty_world_def concatenateMedia_def)

theorem no_empty_timeline_error_witness:
  "fst (downloadFiles accepting_env one_recitation two_links [] ''/app/temp/r1'' empty_world) =
     Inr \<lparr>d_audioPaths = [''/app/temp/r1/audio_unknown-0.mp3''], d_audioDurations = [1],
          d_videoPaths = [''/app/temp/r1/background_1.mp4'']\<rparr> \<and>
   length (startTimes_of [1 :: real]) = length one_recitation \<and>
   fst (processVideoRequest accepting_env False ''r1'' [] two_links [verse_a] empty_world) =
     Inl (NoFilesToConcatenate ''audio'')"
proof -
  have a: "fst (downloadFiles accepting_env one_recitation two_links [] ''/app/temp/r1'' empty_world) =
     Inr \<lparr>d_audioPaths = [''/app/temp/r1/audio_unknown-0.mp3''], d_audioDurations = [1],
          d_videoPaths = [''/app/temp/r1/background_1.mp4'']\<rparr>"
    by (rule download_one_recitation)
  from no_empty_timeline_error [where e = accepting_env and rfs = one_recitation and bg = two_links
      and ayat = "[]" and td = "''/app/temp/r1''" and w = empty_world
      and d = "\<lparr>d_audioPaths = [''/app/temp/r1/audio_unknown-0.mp3''], d_audioDurations = [1],
          d_videoPaths = [''/app/temp/r1/background_1.mp4'']\<rparr>"] a
  have b: "length (startTimes_of [1 :: real]) = length one_recitation"
    by simp
  from a b no_recitations_example show ?thesis by blast
qed

end
